theory Spec2Isabelle
  imports Main
begin

section \<open>Purchase-order combiner: a model of \<^verbatim>\<open>combine_purchase_orders.py\<close>\<close>

text \<open>
  The script reads purchase-order sheets, extracts one record (a dictionary from column
  name to value) per sheet, projects the records of a year onto a fixed column list,
  removes duplicates and writes one table per year. This theory embeds its pure core
  function by function, keeping the names of the source.

  Strings are \<^typ>\<open>string\<close>, that is lists of 8-bit characters. The source works on
  Python \<^verbatim>\<open>str\<close>; the model covers ASCII text: \<^verbatim>\<open>str.lower\<close>, \<^verbatim>\<open>str.upper\<close>,
  \<^verbatim>\<open>str.isspace\<close>, \<^verbatim>\<open>str.isdigit\<close> and the regular-expression classes
  \<^verbatim>\<open>\s\<close>, \<^verbatim>\<open>\d\<close>, \<^verbatim>\<open>\w\<close> are given their ASCII meaning, and a
  character above 127 is an ordinary letter that none of them changes or matches.
  Python treats some of those characters otherwise (the no-break space is white space,
  accented letters have a case), so a statement that rests on these functions is made
  for ASCII strings (\<open>is_ascii\<close>).
\<close>

subsection \<open>Characters and the string methods the source calls\<close>

text \<open>\<^verbatim>\<open>str.isspace\<close> on ASCII: tab, line feed, vertical tab, form feed, carriage return,
  the four separators 0x1C..0x1F and the space. The regular-expression class \<^verbatim>\<open>\s\<close>
  on a \<^verbatim>\<open>str\<close> pattern is the same set.\<close>

definition isspace :: "char \<Rightarrow> bool" where
  "isspace c =
     (c \<in> set [CHR 0x09, CHR 0x0A, CHR 0x0B, CHR 0x0C, CHR 0x0D,
                CHR 0x1C, CHR 0x1D, CHR 0x1E, CHR 0x1F, CHR 0x20])"

text \<open>The strings the model speaks for: every character is below 128.\<close>

definition is_ascii :: "string \<Rightarrow> bool" where
  "is_ascii s = list_all (\<lambda>c. of_char c < (128::nat)) s"

definition isdigit_char :: "char \<Rightarrow> bool" where
  "isdigit_char c = (c \<in> set ''0123456789'')"

definition lower_char :: "char \<Rightarrow> char" where
  "lower_char c =
     (case map_of (zip ''ABCDEFGHIJKLMNOPQRSTUVWXYZ'' ''abcdefghijklmnopqrstuvwxyz'') c of
        Some l \<Rightarrow> l
      | None \<Rightarrow> c)"

definition upper_char :: "char \<Rightarrow> char" where
  "upper_char c =
     (case map_of (zip ''abcdefghijklmnopqrstuvwxyz'' ''ABCDEFGHIJKLMNOPQRSTUVWXYZ'') c of
        Some u \<Rightarrow> u
      | None \<Rightarrow> c)"

text \<open>\<^verbatim>\<open>\w\<close>: letters, digits and the underscore.\<close>

definition isword_char :: "char \<Rightarrow> bool" where
  "isword_char c =
     (c \<in> set ''abcdefghijklmnopqrstuvwxyz'' \<or> c \<in> set ''ABCDEFGHIJKLMNOPQRSTUVWXYZ''
      \<or> isdigit_char c \<or> c = CHR ''_'')"

definition lower :: "string \<Rightarrow> string" where
  "lower s = map lower_char s"

definition upper :: "string \<Rightarrow> string" where
  "upper s = map upper_char s"

definition lstrip :: "string \<Rightarrow> string" where
  "lstrip s = dropWhile isspace s"

definition rstrip :: "string \<Rightarrow> string" where
  "rstrip s = rev (dropWhile isspace (rev s))"

definition strip :: "string \<Rightarrow> string" where
  "strip s = lstrip (rstrip s)"

text \<open>\<^verbatim>\<open>str.isdigit\<close>: a non-empty string of digits.\<close>

definition isdigit :: "string \<Rightarrow> bool" where
  "isdigit s = (s \<noteq> [] \<and> list_all isdigit_char s)"

text \<open>\<^verbatim>\<open>needle in hay\<close> on strings.\<close>

fun starts_with :: "string \<Rightarrow> string \<Rightarrow> bool" where
  "starts_with [] s = True"
| "starts_with (p # ps) [] = False"
| "starts_with (p # ps) (c # cs) = (p = c \<and> starts_with ps cs)"

fun contains :: "string \<Rightarrow> string \<Rightarrow> bool" where
  "contains needle [] = (needle = [])"
| "contains needle (c # cs) = (starts_with needle (c # cs) \<or> contains needle cs)"

text \<open>\<^verbatim>\<open>str.split()\<close> without arguments: the maximal runs of characters that are not
  white space.\<close>

function split_ws :: "string \<Rightarrow> string list" where
  "split_ws [] = []"
| "split_ws (c # cs) =
     (if isspace c then split_ws cs
      else (c # takeWhile (\<lambda>x. \<not> isspace x) cs) # split_ws (dropWhile (\<lambda>x. \<not> isspace x) cs))"
  by pat_completeness auto
termination
  by (relation "measure length") (auto simp: less_Suc_eq_le length_dropWhile_le)

text \<open>\<^verbatim>\<open>re.sub(r'[...]+', ' ', s)\<close> for a character class: every maximal run of
  characters of the class becomes one space.\<close>

function collapse :: "(char \<Rightarrow> bool) \<Rightarrow> string \<Rightarrow> string" where
  "collapse P [] = []"
| "collapse P (c # cs) =
     (if P c then CHR '' '' # collapse P (dropWhile P cs) else c # collapse P cs)"
  by pat_completeness auto
termination
  by (relation "measure (\<lambda>(P, s). length s)") (auto simp: less_Suc_eq_le length_dropWhile_le)

subsection \<open>The text normalizer\<close>

text \<open>The class \<^verbatim>\<open>[_\s\.\-\(\)]\<close> of \<^verbatim>\<open>normalize_text\<close>.\<close>

definition is_sep :: "char \<Rightarrow> bool" where
  "is_sep c = (c \<in> set ''_.-()'' \<or> isspace c)"

text \<open>
  \<^verbatim>\<open>
  def normalize_text(text):
      if not text or pd.isna(text):
          return ''
      text = str(text).strip().lower()
      text = re.sub(r'[_\s\.\-\(\)]+', ' ', text)
      text = re.sub(r'\s+', ' ', text).strip()
      return text
  \<close>
  \<open>normalize_text\<close> is the function on a string; \<open>normalize_text_opt\<close> adds the
  missing input (\<^verbatim>\<open>None\<close> or NaN), which the first line sends to the empty string.
\<close>

definition normalize_text :: "string \<Rightarrow> string" where
  "normalize_text s =
     (if s = [] then []
      else strip (collapse isspace (collapse is_sep (lower (strip s)))))"

definition normalize_text_opt :: "string option \<Rightarrow> string" where
  "normalize_text_opt t = (case t of None \<Rightarrow> [] | Some s \<Rightarrow> normalize_text s)"

subsection \<open>The canonical columns and the alias table\<close>

text \<open>\<^verbatim>\<open>REQUIRED_COLUMNS\<close>, in the order of the source.\<close>

definition REQUIRED_COLUMNS :: "string list" where
  "REQUIRED_COLUMNS =
    [''Folder'',
     ''Product Type (NEW)'',
     ''Source_File'',
     ''Sheet_Name'',
     ''Production Order Form'',
     ''Reference Format No'',
     ''PO Reference'',
     ''Reference Order No'',
     ''Order Form'',
     ''Order Type'',
     ''Order Date'',
     ''O.F. Date'',
     ''PO Date'',
     ''Generic Name'',
     ''Brand Name'',
     ''Quantity'',
     ''Pack Size'',
     ''Product Rate (NEW)'',
     ''Packing Size'',
     ''Packing Type'',
     ''Strength'',
     ''Net Content'',
     ''M.R.P.'',
     ''M.R.P. (Per Strip)'',
     ''Exp. Date'',
     ''Shelf Life'',
     ''Flavour'',
     ''Colour'',
     ''Packaging'',
     ''Bottle Type'',
     ''Measuring Cap'',
     ''Spray Pump'',
     ''ROPP Cap'',
     ''Closure'',
     ''Cap Color'',
     ''Label Provided By'',
     ''Carton Provided By'',
     ''Dropper'',
     ''PVC Size'',
     ''PVC Colour'',
     ''PVC Color & Type'',
     ''Blister Type'',
     ''Capsules Size'',
     ''Capsules Color'',
     ''Capsule Type'',
     ''Punch Size'',
     ''Tablet Color'',
     ''Coating Type'',
     ''Jar'',
     ''Jar Type'',
     ''Jar Lid Color'',
     ''Tin Type'',
     ''Tin / Jar Type'',
     ''Tin / Jar Rim Type'',
     ''Corrugated Box'',
     ''Corrugated Box Pack Size'',
     ''Corrugated Tin'',
     ''Cap / Lid / Spoon'',
     ''Spoon'',
     ''Leaflet'',
     ''Dropper (if not counted earlier)'',
     ''Strapping'',
     ''Wrapping'',
     ''Shrinking'',
     ''Dispatched Detail'',
     ''Date Of Dispatch'',
     ''Company Name'',
     ''Name Of Client'',
     ''Name Of Marketed By'',
     ''Contact Person'',
     ''Contact Number'',
     ''Contact Detail Of Dispatch'',
     ''Specific Requirement If Any'',
     ''Artwork Revision'',
     ''Artwork Revision No'',
     ''Prepared By'',
     ''Checked By'',
     ''Approved Date'',
     ''Issued By Sign & Date'',
     ''Checked & Authorised Sign & Date'',
     ''Authorised Sign'',
     ''Designation'',
     ''Rate'',
     ''Due Payment'',
     ''Remark'',
     ''Product Batch Number'']"

text \<open>The dictionary \<^verbatim>\<open>variations\<close> of \<^verbatim>\<open>match_column_name\<close>, as the list of its
  items. No key occurs twice, so \<open>map_of\<close> is the dictionary's lookup.\<close>

definition variations :: "(string \<times> string) list" where
  "variations =
    [(''reference format no'', ''Reference Format No''),
     (''ref format no'', ''Reference Format No''),
     (''reference format'', ''Reference Format No''),
     (''po reference'', ''PO Reference''),
     (''po ref'', ''PO Reference''),
     (''reference order no'', ''Reference Order No''),
     (''order form number'', ''Order Form''),
     (''order form no'', ''Order Form''),
     (''order form'', ''Order Form''),
     (''order type'', ''Order Type''),
     (''order date'', ''Order Date''),
     (''of date'', ''O.F. Date''),
     (''o.f. date'', ''O.F. Date''),
     (''po date'', ''PO Date''),
     (''generic name'', ''Generic Name''),
     (''brand name'', ''Brand Name''),
     (''quantity'', ''Quantity''),
     (''qty'', ''Quantity''),
     (''qty uom'', ''Qty (UOM)''),
     (''qty (uom)'', ''Qty (UOM)''),
     (''pack size'', ''Pack Size''),
     (''packing size'', ''Packing Size''),
     (''packing type'', ''Packing Type''),
     (''strength'', ''Strength''),
     (''net content'', ''Net Content''),
     (''m.r.p'', ''M.R.P.''),
     (''mrp'', ''M.R.P.''),
     (''m.r.p.'', ''M.R.P.''),
     (''m.r.p. per strip'', ''M.R.P. (Per Strip)''),
     (''exp date'', ''Exp. Date''),
     (''expiry date'', ''Exp. Date''),
     (''shelf life'', ''Shelf Life''),
     (''flavour'', ''Flavour''),
     (''flavor'', ''Flavour''),
     (''colour'', ''Colour''),
     (''color'', ''Colour''),
     (''packaging'', ''Packaging''),
     (''bottle type'', ''Bottle Type''),
     (''measuring cap'', ''Measuring Cap''),
     (''spray pump'', ''Spray Pump''),
     (''ropp cap'', ''ROPP Cap''),
     (''closure'', ''Closure''),
     (''cap color'', ''Cap Color''),
     (''cap colour'', ''Cap Color''),
     (''label provided by'', ''Label Provided By''),
     (''carton provided by'', ''Carton Provided By''),
     (''dropper'', ''Dropper''),
     (''pvc size'', ''PVC Size''),
     (''pvc colour'', ''PVC Colour''),
     (''pvc color'', ''PVC Colour''),
     (''pvc color type'', ''PVC Color & Type''),
     (''pvc color & type'', ''PVC Color & Type''),
     (''blister type'', ''Blister Type''),
     (''capsules size'', ''Capsules Size''),
     (''capsule size'', ''Capsules Size''),
     (''capsules color'', ''Capsules Color''),
     (''capsule color'', ''Capsules Color''),
     (''capsules colour'', ''Capsules Color''),
     (''capsule type'', ''Capsule Type''),
     (''tablet color'', ''Tablet Color''),
     (''tablet colour'', ''Tablet Color''),
     (''coating type'', ''Coating Type''),
     (''punch size'', ''Punch Size''),
     (''jar'', ''Jar''),
     (''jar type'', ''Jar Type''),
     (''tin type'', ''Tin Type''),
     (''tin jar type'', ''Tin / Jar Type''),
     (''tin / jar type'', ''Tin / Jar Type''),
     (''tin jar rim type'', ''Tin / Jar Rim Type''),
     (''tin / jar rim type'', ''Tin / Jar Rim Type''),
     (''jar lid color'', ''Jar Lid Color''),
     (''corrugated box'', ''Corrugated Box''),
     (''corrugated box pack size'', ''Corrugated Box Pack Size''),
     (''corrugated tin'', ''Corrugated Tin''),
     (''cap lid spoon'', ''Cap / Lid / Spoon''),
     (''cap / lid / spoon'', ''Cap / Lid / Spoon''),
     (''spoon'', ''Spoon''),
     (''leaflet'', ''Leaflet''),
     (''strapping'', ''Strapping''),
     (''wrapping'', ''Wrapping''),
     (''shrinking'', ''Shrinking''),
     (''dispatched detail'', ''Dispatched Detail''),
     (''company name'', ''Company Name''),
     (''name of client'', ''Name Of Client''),
     (''name of marketed by'', ''Name Of Marketed By''),
     (''marketed by'', ''Name Of Marketed By''),
     (''contact person'', ''Contact Person''),
     (''contact number'', ''Contact Number''),
     (''contact detail of dispatch'', ''Contact Detail Of Dispatch''),
     (''date of dispatch'', ''Date Of Dispatch''),
     (''specific requirement if any'', ''Specific Requirement If Any''),
     (''artwork revision'', ''Artwork Revision''),
     (''artwork revision no'', ''Artwork Revision No''),
     (''prepared by'', ''Prepared By''),
     (''checked by'', ''Checked By''),
     (''approved date'', ''Approved Date''),
     (''issued by sign date'', ''Issued By Sign & Date''),
     (''checked authorised sign date'', ''Checked & Authorised Sign & Date''),
     (''authorised sign'', ''Authorised Sign''),
     (''designation'', ''Designation''),
     (''rate'', ''Rate''),
     (''due payment'', ''Due Payment''),
     (''remark'', ''Remark''),
     (''product batch number'', ''Product Batch Number'')]"

subsection \<open>The column matcher\<close>

definition word_set :: "string \<Rightarrow> string set" where
  "word_set s = set (split_ws s)"

text \<open>
  The second loop of \<^verbatim>\<open>match_column_name\<close>. It returns at once (\<open>Inl\<close>) at a target
  with the source's word set; otherwise it carries \<^verbatim>\<open>best_match\<close> and \<^verbatim>\<open>best_score\<close>
  along and ends with the best match (\<open>Inr\<close>).
\<close>

fun fuzzy_loop :: "string set \<Rightarrow> string list \<Rightarrow> string option \<Rightarrow> nat \<Rightarrow> string + string option" where
  "fuzzy_loop source_words [] best_match best_score = Inr best_match"
| "fuzzy_loop source_words (target # targets) best_match best_score =
     (let target_words = word_set (normalize_text target) in
      if source_words = target_words then Inl target
      else if source_words \<subseteq> target_words \<or> target_words \<subseteq> source_words then
        (let score = card (source_words \<inter> target_words) in
         if score > best_score then fuzzy_loop source_words targets (Some target) score
         else fuzzy_loop source_words targets best_match best_score)
      else fuzzy_loop source_words targets best_match best_score)"

definition match_column_name :: "string \<Rightarrow> string list \<Rightarrow> string option" where
  "match_column_name source_name target_columns =
     (if source_name = [] then None
      else
        let source_normalized = normalize_text source_name in
        case find (\<lambda>target. normalize_text target = source_normalized) target_columns of
          Some target \<Rightarrow> Some target
        | None \<Rightarrow>
            (case fuzzy_loop (word_set source_normalized) target_columns None 0 of
               Inl target \<Rightarrow> Some target
             | Inr best_match \<Rightarrow>
                 (case map_of variations source_normalized of
                    Some column \<Rightarrow> Some column
                  | None \<Rightarrow> best_match)))"

subsection \<open>Normal forms of the normalizer\<close>

text \<open>What an output of \<open>normalize_text\<close> looks like: lower-case words without
  separator characters, with single spaces between them and none at either end.\<close>

definition ok_char :: "char \<Rightarrow> bool" where
  "ok_char c = (c = CHR '' '' \<or> (\<not> is_sep c \<and> lower_char c = c))"

fun no_adj :: "string \<Rightarrow> bool" where
  "no_adj (a # b # cs) = (\<not> (a = CHR '' '' \<and> b = CHR '' '') \<and> no_adj (b # cs))"
| "no_adj cs = True"

definition normal_form :: "string \<Rightarrow> bool" where
  "normal_form s = ((\<forall>c \<in> set s. ok_char c) \<and> no_adj s
      \<and> (s = [] \<or> (\<not> isspace (hd s) \<and> \<not> isspace (last s))))"

text \<open>The words of a text with respect to a class of separators: the maximal runs of
  characters outside the class.\<close>

function tokens :: "(char \<Rightarrow> bool) \<Rightarrow> string \<Rightarrow> string list" where
  "tokens P [] = []"
| "tokens P (c # cs) =
     (if P c then tokens P cs
      else (c # takeWhile (\<lambda>x. \<not> P x) cs) # tokens P (dropWhile (\<lambda>x. \<not> P x) cs))"
  by pat_completeness auto
termination
  by (relation "measure (\<lambda>(P, s). length s)") (auto simp: less_Suc_eq_le length_dropWhile_le)

text \<open>\<^verbatim>\<open>' '.join(words)\<close>\<close>

fun join_words :: "string list \<Rightarrow> string" where
  "join_words [] = []"
| "join_words [w] = w"
| "join_words (w # v # ws) = w @ CHR '' '' # join_words (v # ws)"

subsection \<open>The regular expressions of the extractor\<close>

text \<open>
  The patterns of \<^verbatim>\<open>extract_data_from_sheet\<close> are sequences of a literal, runs of
  white space, single characters and one group at the end. Each piece below consumes a
  prefix of the text and returns the rest, or fails. In every pattern of the source a
  starred class is followed by a character outside the class or by the final group
  \<^verbatim>\<open>(.*)\<close>, which matches whatever is left, so the greedy run is the match that
  Python returns and no backtracking is lost.
\<close>

text \<open>A literal under \<^verbatim>\<open>re.IGNORECASE\<close>.\<close>

fun match_lit :: "string \<Rightarrow> string \<Rightarrow> string option" where
  "match_lit [] s = Some s"
| "match_lit (p # ps) [] = None"
| "match_lit (p # ps) (c # cs) =
     (if lower_char p = lower_char c then match_lit ps cs else None)"

text \<open>\<^verbatim>\<open>\s*\<close>\<close>

definition skip_spaces :: "string \<Rightarrow> string" where
  "skip_spaces s = dropWhile isspace s"

definition match_char :: "char \<Rightarrow> string \<Rightarrow> string option" where
  "match_char ch s = (case s of [] \<Rightarrow> None | c # cs \<Rightarrow> if c = ch then Some cs else None)"

text \<open>A final group \<^verbatim>\<open>([...]+)\<close>: the longest non-empty run of the class.\<close>

definition take_class :: "(char \<Rightarrow> bool) \<Rightarrow> string \<Rightarrow> string option" where
  "take_class P s = (if takeWhile P s = [] then None else Some (takeWhile P s))"

text \<open>A final group \<^verbatim>\<open>(.*)\<close>: the dot matches every character but the line feed.\<close>

definition rest_of_line :: "string \<Rightarrow> string" where
  "rest_of_line s = takeWhile (\<lambda>c. c \<noteq> CHR 0x0A) s"

text \<open>\<^verbatim>\<open>re.search\<close>: the match at the leftmost position where the pattern matches;
  the result is the text of group 1.\<close>

fun re_search :: "(string \<Rightarrow> string option) \<Rightarrow> string \<Rightarrow> string option" where
  "re_search m [] = m []"
| "re_search m (c # cs) = (case m (c # cs) of Some g \<Rightarrow> Some g | None \<Rightarrow> re_search m cs)"

text \<open>\<^verbatim>\<open>Reference format no\.\*rev no\.:\s*(.*)\<close>\<close>

definition pat_reference_format :: "string \<Rightarrow> string option" where
  "pat_reference_format s =
     Option.bind (match_lit ''Reference format no.*rev no.:'' s)
       (\<lambda>r. Some (rest_of_line (skip_spaces r)))"

text \<open>\<^verbatim>\<open>Order form number\s*:\s*(\w+)\<close>\<close>

definition pat_order_form :: "string \<Rightarrow> string option" where
  "pat_order_form s =
     Option.bind (match_lit ''Order form number'' s)
       (\<lambda>r. Option.bind (match_char CHR '':'' (skip_spaces r))
         (\<lambda>r. take_class isword_char (skip_spaces r)))"

text \<open>The class \<^verbatim>\<open>[\d\-/]\<close> of the two date patterns.\<close>

definition is_date_char :: "char \<Rightarrow> bool" where
  "is_date_char c = (isdigit_char c \<or> c = CHR ''-'' \<or> c = CHR ''/'')"

text \<open>\<^verbatim>\<open>O\.F\. Date\s*:\s*([\d\-/]+)\<close>\<close>

definition pat_of_date :: "string \<Rightarrow> string option" where
  "pat_of_date s =
     Option.bind (match_lit ''O.F. Date'' s)
       (\<lambda>r. Option.bind (match_char CHR '':'' (skip_spaces r))
         (\<lambda>r. take_class is_date_char (skip_spaces r)))"

text \<open>\<^verbatim>\<open>PO Date\s*:\s*([\d\-/]+)\<close>\<close>

definition pat_po_date :: "string \<Rightarrow> string option" where
  "pat_po_date s =
     Option.bind (match_lit ''PO Date'' s)
       (\<lambda>r. Option.bind (match_char CHR '':'' (skip_spaces r))
         (\<lambda>r. take_class is_date_char (skip_spaces r)))"

text \<open>\<^verbatim>\<open>POreference\s*:\s*(.*)\<close>\<close>

definition pat_po_reference :: "string \<Rightarrow> string option" where
  "pat_po_reference s =
     Option.bind (match_lit ''POreference'' s)
       (\<lambda>r. Option.bind (match_char CHR '':'' (skip_spaces r))
         (\<lambda>r. Some (rest_of_line (skip_spaces r))))"

text \<open>\<^verbatim>\<open>Order type\s*:\s*(.*)\<close>\<close>

definition pat_order_type :: "string \<Rightarrow> string option" where
  "pat_order_type s =
     Option.bind (match_lit ''Order type'' s)
       (\<lambda>r. Option.bind (match_char CHR '':'' (skip_spaces r))
         (\<lambda>r. Some (rest_of_line (skip_spaces r))))"

text \<open>\<^verbatim>\<open>Contact person\s*\([^)]*\)\s*:\s*(.*)\<close>\<close>

definition pat_contact_person :: "string \<Rightarrow> string option" where
  "pat_contact_person s =
     Option.bind (match_lit ''Contact person'' s)
       (\<lambda>r. Option.bind (match_char CHR ''('' (skip_spaces r))
         (\<lambda>r. Option.bind (match_char CHR '')'' (dropWhile (\<lambda>c. c \<noteq> CHR '')'') r))
           (\<lambda>r. Option.bind (match_char CHR '':'' (skip_spaces r))
             (\<lambda>r. Some (rest_of_line (skip_spaces r))))))"

text \<open>\<^verbatim>\<open>re.sub(r'^Rs\.?\s*', '', s, flags=re.IGNORECASE)\<close>: the pattern can only match
  at the start of the text.\<close>

definition strip_rs :: "string \<Rightarrow> string" where
  "strip_rs s =
     (case match_lit ''Rs'' s of
        None \<Rightarrow> s
      | Some r \<Rightarrow> skip_spaces (case match_char CHR ''.'' r of Some r' \<Rightarrow> r' | None \<Rightarrow> r))"

text \<open>\<^verbatim>\<open>re.match(r'[\"\']?([\d,]+)', s)\<close>: an optional quote character, then digits and
  commas.\<close>

definition qty_match :: "string \<Rightarrow> string option" where
  "qty_match s =
     take_class (\<lambda>c. isdigit_char c \<or> c = CHR '','')
       (case s of
          [] \<Rightarrow> s
        | c # cs \<Rightarrow> if c = CHR 0x22 \<or> c = CHR 0x27 then cs else s)"

subsection \<open>Sheets and records\<close>

text \<open>
  A cell of a sheet read with \<^verbatim>\<open>header=None\<close> is empty (NaN, here \<open>None\<close>) or holds a
  value, which the extractor only ever reads through \<^verbatim>\<open>str\<close>: \<open>Some s\<close> is a cell
  whose \<^verbatim>\<open>str\<close> is \<open>s\<close>. A sheet is the list of its rows. A data frame is
  rectangular: its width is the length of its rows, and a cell missing from a shorter
  row reads as empty.
\<close>

type_synonym cell = "string option"

type_synonym sheet = "cell list list"

definition nrows :: "sheet \<Rightarrow> nat" where
  "nrows df = length df"

definition ncols :: "sheet \<Rightarrow> nat" where
  "ncols df = (case df of [] \<Rightarrow> 0 | r # _ \<Rightarrow> length r)"

definition iloc :: "sheet \<Rightarrow> nat \<Rightarrow> nat \<Rightarrow> cell" where
  "iloc df i j = (if i < length df \<and> j < length (df ! i) then df ! i ! j else None)"

text \<open>\<^verbatim>\<open>str(cell)\<close>: an empty cell prints as \<^verbatim>\<open>nan\<close>.\<close>

definition str_cell :: "cell \<Rightarrow> string" where
  "str_cell c = (case c of None \<Rightarrow> ''nan'' | Some s \<Rightarrow> s)"

text \<open>\<^verbatim>\<open>df.empty\<close>: one of the two axes has length 0.\<close>

definition df_empty :: "sheet \<Rightarrow> bool" where
  "df_empty df = (nrows df = 0 \<or> ncols df = 0)"

text \<open>
  A record is a Python dictionary from column name to value. Python keeps the keys in
  the order of their first insertion, and the projection of a record reads them in that
  order, so the model is the list of the items: \<open>dict_set\<close> replaces the value of a key
  that is present in place and appends a new key at the end.
\<close>

type_synonym pydict = "(string \<times> string) list"

fun dict_set :: "string \<Rightarrow> string \<Rightarrow> pydict \<Rightarrow> pydict" where
  "dict_set k v [] = [(k, v)]"
| "dict_set k v ((k', v') # d) = (if k' = k then (k, v) # d else (k', v') # dict_set k v d)"

definition dict_get :: "pydict \<Rightarrow> string \<Rightarrow> string option" where
  "dict_get d k = map_of d k"

definition has_key :: "string \<Rightarrow> pydict \<Rightarrow> bool" where
  "has_key k d = (dict_get d k \<noteq> None)"

subsection \<open>The sheet extractor\<close>

text \<open>
  \<^verbatim>\<open>
  def safe_extract(df, row_index, col_index, pattern):
      try:
          if row_index < len(df) and col_index < len(df.columns):
              cell_value = df.iloc[row_index, col_index]
              if pd.notna(cell_value):
                  match = re.search(pattern, str(cell_value), re.IGNORECASE)
                  if match:
                      return match.group(1).strip()
      except:
          pass
      return None
  \<close>
\<close>

definition safe_extract :: "sheet \<Rightarrow> nat \<Rightarrow> nat \<Rightarrow> (string \<Rightarrow> string option) \<Rightarrow> string option" where
  "safe_extract df row_index col_index pattern =
     (if row_index < nrows df \<and> col_index < ncols df then
        (case iloc df row_index col_index of
           None \<Rightarrow> None
         | Some cell_value \<Rightarrow> map_option strip (re_search pattern cell_value))
      else None)"

text \<open>
  The header scan tests seven fields on every row, in this order. Each entry is the key
  it stores under, the substrings that make a row a candidate for the field, and the
  field's pattern.
\<close>

type_synonym header_field = "string \<times> string list \<times> (string \<Rightarrow> string option)"

definition header_fields :: "header_field list" where
  "header_fields =
    [(''Reference Format No'', [''reference format''], pat_reference_format),
     (''Order Form'', [''order form number'', ''order form''], pat_order_form),
     (''O.F. Date'', [''o.f. date'', ''of date''], pat_of_date),
     (''PO Date'', [''po date''], pat_po_date),
     (''PO Reference'', [''poreference'', ''po reference''], pat_po_reference),
     (''Order Type'', [''order type''], pat_order_type),
     (''Contact Person'', [''contact person''], pat_contact_person)]"

text \<open>
  One field on one row:
  \<^verbatim>\<open>
  if 'order form number' in row_val.lower() or 'order form' in row_val.lower():
      order_form_match = safe_extract(df_sheet, row_idx, 0, r'Order form number\s*:\s*(\w+)')
      if order_form_match:
          data['Order Form'] = order_form_match
  \<close>
  \<open>header_value\<close> is the value the row yields for the field, if it yields one: the
  keyword test holds and the pattern gives a non-empty text.
\<close>

definition header_value :: "sheet \<Rightarrow> nat \<Rightarrow> header_field \<Rightarrow> string option" where
  "header_value df row_idx fld =
     (case fld of (key, keywords, pattern) \<Rightarrow>
        if list_ex (\<lambda>kw. contains kw (lower (str_cell (iloc df row_idx 0)))) keywords then
          (case safe_extract df row_idx 0 pattern of
             None \<Rightarrow> None
           | Some m \<Rightarrow> if m \<noteq> [] then Some m else None)
        else None)"

definition header_step :: "sheet \<Rightarrow> nat \<Rightarrow> pydict \<Rightarrow> header_field \<Rightarrow> pydict" where
  "header_step df row_idx data fld =
     (case header_value df row_idx fld of
        None \<Rightarrow> data
      | Some m \<Rightarrow> dict_set (fst fld) m data)"

definition header_row :: "sheet \<Rightarrow> pydict \<Rightarrow> nat \<Rightarrow> pydict" where
  "header_row df data row_idx =
     (if ncols df = 0 then data else foldl (header_step df row_idx) data header_fields)"

text \<open>\<^verbatim>\<open>for row_idx in range(3, min(10, len(df_sheet))):\<close>\<close>

definition header_scan :: "sheet \<Rightarrow> pydict \<Rightarrow> pydict" where
  "header_scan df data = foldl (header_row df) data [3 ..< min 10 (nrows df)]"

text \<open>
  The value stored for a matched column, from the details cell and the additional cell
  (column 4):
  \<^verbatim>\<open>
  if 'm.r.p' in matched_column.lower():
      if additional_value:
          mrp_clean = re.sub(r'^Rs\.?\s*', '', additional_value, flags=re.IGNORECASE).strip()
          mrp_clean = re.sub(r'[,\s]', '', mrp_clean)
          if mrp_clean and mrp_clean.upper() not in ['EXPORT', 'NA', 'PHY.SAMPLE',
                                                    'TO BE CONFIRM', 'PERUNITPRICE', '']:
              data[matched_column] = mrp_clean
          else:
              data[matched_column] = details_value
      else:
          data[matched_column] = details_value
  elif 'quantity' in matched_column.lower() or 'qty' in matched_column.lower():
      qty_match = re.match(r'[\"\']?([\d,]+)', details_value)
      if qty_match:
          data[matched_column] = qty_match.group(1).replace(',', '').strip()
      else:
          data[matched_column] = details_value
  else:
      data[matched_column] = details_value
  \<close>
\<close>

definition mrp_clean :: "string \<Rightarrow> string" where
  "mrp_clean additional_value =
     filter (\<lambda>c. c \<noteq> CHR '','' \<and> \<not> isspace c) (strip (strip_rs additional_value))"

definition field_value :: "string \<Rightarrow> string \<Rightarrow> string option \<Rightarrow> string" where
  "field_value matched_column details_value additional_value =
     (if contains ''m.r.p'' (lower matched_column) then
        (case additional_value of
           None \<Rightarrow> details_value
         | Some a \<Rightarrow>
             if a \<noteq> [] then
               (if mrp_clean a \<noteq> []
                   \<and> upper (mrp_clean a) \<notin> set [''EXPORT'', ''NA'', ''PHY.SAMPLE'',
                                                   ''TO BE CONFIRM'', ''PERUNITPRICE'', '''']
                then mrp_clean a else details_value)
             else details_value)
      else if contains ''quantity'' (lower matched_column) \<or> contains ''qty'' (lower matched_column) then
        (case qty_match details_value of
           Some g \<Rightarrow> strip (filter (\<lambda>c. c \<noteq> CHR '','') g)
         | None \<Rightarrow> details_value)
      else details_value)"

text \<open>
  One row of the title/details scan:
  \<^verbatim>\<open>
  if len(df_sheet.columns) < 3:
      continue
  title_cell = df_sheet.iloc[row_idx, 1]
  if pd.notna(title_cell):
      title = str(title_cell).strip()
      if title and not title.isdigit() and title.lower() not in ['no.', 'no', 'title', 'details']:
          details_cell = df_sheet.iloc[row_idx, 2] if len(df_sheet.columns) > 2 else None
          details_value = ''
          if pd.notna(details_cell):
              details_value = str(details_cell).strip()
          additional_value = None
          if len(df_sheet.columns) > 4:
              additional_cell = df_sheet.iloc[row_idx, 4]
              if pd.notna(additional_cell):
                  additional_value = str(additional_cell).strip()
          matched_column = match_column_name(title, REQUIRED_COLUMNS)
          if matched_column and matched_column not in data:
              if details_value and details_value.upper() not in ['NA', 'N/A', '']:
                  ...
  \<close>
\<close>

definition title_row :: "sheet \<Rightarrow> pydict \<Rightarrow> nat \<Rightarrow> pydict" where
  "title_row df data row_idx =
     (if ncols df < 3 then data
      else
        case iloc df row_idx 1 of
          None \<Rightarrow> data
        | Some title_cell \<Rightarrow>
            let title = strip title_cell in
            if title \<noteq> [] \<and> \<not> isdigit title
               \<and> lower title \<notin> set [''no.'', ''no'', ''title'', ''details'']
            then
              let details_value = (case iloc df row_idx 2 of None \<Rightarrow> [] | Some d \<Rightarrow> strip d);
                  additional_value =
                    (if ncols df > 4 then map_option strip (iloc df row_idx 4) else None)
              in
                case match_column_name title REQUIRED_COLUMNS of
                  None \<Rightarrow> data
                | Some matched_column \<Rightarrow>
                    if matched_column \<noteq> [] \<and> \<not> has_key matched_column data then
                      (if details_value \<noteq> []
                          \<and> upper details_value \<notin> set [''NA'', ''N/A'', '''']
                       then dict_set matched_column
                              (field_value matched_column details_value additional_value) data
                       else data)
                    else data
            else data)"

text \<open>
  What a row of the scan offers, whatever the record holds: the column its title
  resolves to and the value it would store there. \<open>title_row\<close> stores the offer
  when the record does not hold the column yet (lemma \<open>title_row_offer\<close>).
\<close>

definition title_offer :: "sheet \<Rightarrow> nat \<Rightarrow> (string \<times> string) option" where
  "title_offer df row_idx =
     (if ncols df < 3 then None
      else
        case iloc df row_idx 1 of
          None \<Rightarrow> None
        | Some title_cell \<Rightarrow>
            let title = strip title_cell in
            if title \<noteq> [] \<and> \<not> isdigit title
               \<and> lower title \<notin> set [''no.'', ''no'', ''title'', ''details'']
            then
              let details_value = (case iloc df row_idx 2 of None \<Rightarrow> [] | Some d \<Rightarrow> strip d);
                  additional_value =
                    (if ncols df > 4 then map_option strip (iloc df row_idx 4) else None)
              in
                case match_column_name title REQUIRED_COLUMNS of
                  None \<Rightarrow> None
                | Some matched_column \<Rightarrow>
                    if matched_column \<noteq> [] \<and> details_value \<noteq> []
                       \<and> upper details_value \<notin> set [''NA'', ''N/A'', '''']
                    then Some (matched_column,
                               field_value matched_column details_value additional_value)
                    else None
            else None)"

text \<open>\<^verbatim>\<open>for row_idx in range(8, len(df_sheet)):\<close>\<close>

definition title_scan :: "sheet \<Rightarrow> pydict \<Rightarrow> pydict" where
  "title_scan df data = foldl (title_row df) data [8 ..< nrows df]"

text \<open>The record as built by the two scans, before the acceptance test.\<close>

definition build_record :: "sheet \<Rightarrow> pydict" where
  "build_record df = title_scan df (header_scan df [])"

text \<open>
  \<^verbatim>\<open>
  def extract_data_from_sheet(df_sheet, file_name, sheet_name):
      if df_sheet.empty or len(df_sheet) < 5:
          return None
      data = {}
      ... the two scans ...
      if 'Order Form' not in data and 'Reference Format No' not in data \
              and 'PO Reference' not in data:
          return None
      return data
  \<close>
  The scans sit in \<^verbatim>\<open>try\<close> blocks. In the model every cell access is inside the sheet
  or reads an empty cell and every pattern is a total function, so no branch raises.
\<close>

definition extract_data_from_sheet :: "sheet \<Rightarrow> pydict option" where
  "extract_data_from_sheet df_sheet =
     (if df_empty df_sheet \<or> nrows df_sheet < 5 then None
      else
        let data = build_record df_sheet in
        if \<not> has_key ''Order Form'' data \<and> \<not> has_key ''Reference Format No'' data
           \<and> \<not> has_key ''PO Reference'' data
        then None
        else Some data)"

subsection \<open>The year aggregator: projection, duplicate keys, deduplication\<close>

text \<open>
  A row of the combined table holds one cell per name of \<open>REQUIRED_COLUMNS\<close>, in that
  order:
  \<^verbatim>\<open>
  result_data = {col: [] for col in REQUIRED_COLUMNS}
  for record in all_records:
      for req_col in REQUIRED_COLUMNS:
          value = None
          for key, val in record.items():
              if match_column_name(key, [req_col]) == req_col:
                  value = val
                  break
          result_data[req_col].append(value)
  df_final = pd.DataFrame(result_data)
  \<close>
\<close>

type_synonym row = "cell list"

definition lookup_value :: "pydict \<Rightarrow> string \<Rightarrow> cell" where
  "lookup_value record req_col =
     map_option snd
       (find (\<lambda>item. match_column_name (fst item) [req_col] = Some req_col) record)"

definition project_record :: "pydict \<Rightarrow> row" where
  "project_record record = map (lookup_value record) REQUIRED_COLUMNS"

text \<open>\<^verbatim>\<open>row.get(col)\<close> on a row of the combined table: the cell under the column, and
  \<^verbatim>\<open>None\<close> for a name that is no column.\<close>

definition row_get :: "row \<Rightarrow> string \<Rightarrow> cell" where
  "row_get r col = (case map_of (zip REQUIRED_COLUMNS r) col of None \<Rightarrow> None | Some c \<Rightarrow> c)"

text \<open>\<^verbatim>\<open>sep.join(parts)\<close>\<close>

fun join :: "string \<Rightarrow> string list \<Rightarrow> string" where
  "join sep [] = []"
| "join sep [x] = x"
| "join sep (x # y # ys) = x @ sep @ join sep (y # ys)"

text \<open>
  \<^verbatim>\<open>
  def create_key(row):
      parts = []
      if pd.notna(row.get('Order Form')):
          parts.append(str(row['Order Form']))
      if pd.notna(row.get('PO Date')):
          parts.append(str(row['PO Date']))
      if pd.notna(row.get('Brand Name')):
          parts.append(str(row['Brand Name']))
      return '|'.join(parts) if parts else f"ROW_{id(row)}"
  \<close>
  \<^verbatim>\<open>id(row)\<close> is the identity of the object that \<^verbatim>\<open>DataFrame.apply\<close> hands to
  \<^verbatim>\<open>create_key\<close> for the row. Python makes the identities of two objects differ only
  while both are alive, and the row objects are temporaries of the library, so the source
  fixes nothing about them. The model takes the printed identity as a parameter:
  \<open>row_id\<close> is what \<^verbatim>\<open>str(id(row))\<close> gives for the row in hand.
\<close>

definition key_parts :: "row \<Rightarrow> string list" where
  "key_parts r = List.map_filter (row_get r) [''Order Form'', ''PO Date'', ''Brand Name'']"

definition create_key :: "string \<Rightarrow> row \<Rightarrow> string" where
  "create_key row_id r =
     (if key_parts r \<noteq> [] then join ''|'' (key_parts r) else ''ROW_'' @ row_id)"

text \<open>
  \<^verbatim>\<open>df.drop_duplicates(subset=['_duplicate_key'], keep='first')\<close>: a row stays when no
  earlier row has its key. The frame is a list of rows with their keys; \<open>seen\<close> holds the
  keys met so far.
\<close>

fun drop_duplicates :: "string list \<Rightarrow> (string \<times> 'a) list \<Rightarrow> (string \<times> 'a) list" where
  "drop_duplicates seen [] = []"
| "drop_duplicates seen ((k, r) # rest) =
     (if k \<in> set seen then drop_duplicates seen rest
      else (k, r) # drop_duplicates (k # seen) rest)"

text \<open>
  The frame after deduplication. A row keeps its index label (its position in the
  combined table), as a data frame's rows do; \<open>row_ids ! i\<close> is the printed identity of
  the object passed for row \<open>i\<close>.
  \<^verbatim>\<open>
  duplicate_keys = df_final.apply(create_key, axis=1)
  df_final = df_final.assign(_duplicate_key=duplicate_keys).copy()
  df_dedup = df_final.drop_duplicates(subset=['_duplicate_key'], keep='first')
  df_dedup = df_dedup.drop(columns=['_duplicate_key']).copy()
  \<close>
\<close>

definition df_final :: "pydict list \<Rightarrow> row list" where
  "df_final all_records = map project_record all_records"

definition duplicate_keys :: "string list \<Rightarrow> row list \<Rightarrow> string list" where
  "duplicate_keys row_ids rows = map (\<lambda>(i, r). create_key i r) (zip row_ids rows)"

definition dedup_frame :: "string list \<Rightarrow> row list \<Rightarrow> (nat \<times> row) list" where
  "dedup_frame row_ids rows =
     map snd (drop_duplicates []
       (zip (duplicate_keys row_ids rows) (zip [0 ..< length rows] rows)))"

definition df_dedup :: "string list \<Rightarrow> pydict list \<Rightarrow> (nat \<times> row) list" where
  "df_dedup row_ids all_records = dedup_frame row_ids (df_final all_records)"

text \<open>
  The table written for a year. The order of its rows is that of
  \<^verbatim>\<open>sort_values(by='_sort_date', na_position='last')\<close> on the dates that
  \<^verbatim>\<open>pd.to_datetime(..., errors='coerce')\<close> reads from the column PO Date, or the order
  after deduplication when that step raises. Both are library functions; the model takes
  the reordering as the parameter \<open>sort_values\<close>. With no record there is no table
  (\<^verbatim>\<open>if not all_records: return False\<close>).
\<close>

record table =
  header :: "string list"
  body :: "row list"

definition written_table ::
  "((nat \<times> row) list \<Rightarrow> (nat \<times> row) list) \<Rightarrow> string list \<Rightarrow> pydict list \<Rightarrow> table option" where
  "written_table sort_values row_ids all_records =
     (if all_records = [] then None
      else Some \<lparr>header = REQUIRED_COLUMNS,
                  body = map snd (sort_values (df_dedup row_ids all_records))\<rparr>)"

subsection \<open>The processed-file ledger\<close>

text \<open>
  The ledger of a year is a text file. The two functions of the source touch the file
  system through \<^verbatim>\<open>os.makedirs\<close>, \<^verbatim>\<open>os.path.exists\<close>, \<^verbatim>\<open>open\<close>, the iteration over
  the lines of the file and \<^verbatim>\<open>write\<close>. The environment says what each path holds and
  which of these calls succeed:
  \<^item> \<open>files\<close>: no file at the path, or a file with its text;
  \<^item> \<open>makedirs_ok\<close>: \<^verbatim>\<open>os.makedirs(dir, exist_ok=True)\<close> returns for the directory
    (otherwise it raises);
  \<^item> \<open>readable\<close>: opening the path for reading and decoding its text as UTF-8 succeed;
  \<^item> \<open>appendable\<close>: opening the path for appending and writing to it succeed;
  \<^item> \<open>encodable\<close>: UTF-8 can encode the text (a Python string may hold a lone
    surrogate, which it cannot).
\<close>

datatype file_state = Missing | File string

record filesystem =
  files :: "string \<Rightarrow> file_state"
  makedirs_ok :: "string \<Rightarrow> bool"
  readable :: "string \<Rightarrow> bool"
  appendable :: "string \<Rightarrow> bool"
  encodable :: "string \<Rightarrow> bool"

datatype py_error = OSError

text \<open>\<^verbatim>\<open>OUTPUT_DIR\<close>, the default of the parameter \<^verbatim>\<open>tracking_dir\<close>
  (\<^verbatim>\<open>if tracking_dir is None: tracking_dir = OUTPUT_DIR\<close>).\<close>

definition OUTPUT_DIR :: string where
  "OUTPUT_DIR = ''combined-data''"

definition tracking_dir_of :: "string option \<Rightarrow> string" where
  "tracking_dir_of tracking_dir = (case tracking_dir of None \<Rightarrow> OUTPUT_DIR | Some d \<Rightarrow> d)"

text \<open>\<^verbatim>\<open>os.path.join(a, b)\<close> of two components, as \<^verbatim>\<open>posixpath\<close> defines it: an
  absolute \<open>b\<close> replaces \<open>a\<close>, and the separator is added unless \<open>a\<close> is empty or ends
  with it.\<close>

definition os_path_join :: "string \<Rightarrow> string \<Rightarrow> string" where
  "os_path_join a b =
     (if b \<noteq> [] \<and> hd b = CHR ''/'' then b
      else if a = [] \<or> last a = CHR ''/'' then a @ b
      else a @ ''/'' @ b)"

text \<open>\<^verbatim>\<open>os.path.join(tracking_dir, f".{year_name}_processed.txt")\<close>\<close>

definition tracking_file :: "string \<Rightarrow> string \<Rightarrow> string" where
  "tracking_file tracking_dir year_name =
     os_path_join tracking_dir (''.'' @ year_name @ ''_processed.txt'')"

text \<open>
  The lines of a text read in text mode: a line ends at a line feed or a carriage return
  (universal newlines), and a last line without terminator counts when it is not empty.
  A carriage return followed by a line feed gives one empty piece more than Python does;
  the reader below drops blank lines, so the set it returns is the same.
\<close>

definition is_newline :: "char \<Rightarrow> bool" where
  "is_newline c = (c = CHR 0x0A \<or> c = CHR 0x0D)"

fun lines_acc :: "string \<Rightarrow> string \<Rightarrow> string list" where
  "lines_acc cur [] = (if cur = [] then [] else [cur])"
| "lines_acc cur (c # cs) =
     (if is_newline c then cur # lines_acc [] cs else lines_acc (cur @ [c]) cs)"

definition file_lines :: "string \<Rightarrow> string list" where
  "file_lines s = lines_acc [] s"

text \<open>
  \<^verbatim>\<open>
  def get_processed_files_from_tracking(year_name, tracking_dir=None):
      processed_files = set()
      if tracking_dir is None:
          tracking_dir = OUTPUT_DIR
      tracking_file = os.path.join(tracking_dir, f".{year_name}_processed.txt")
      if os.path.exists(tracking_file):
          try:
              with open(tracking_file, 'r', encoding='utf-8') as f:
                  processed_files = {line.strip() for line in f if line.strip()}
          except Exception:
              pass
      return processed_files
  \<close>
\<close>

definition get_processed_files_from_tracking ::
  "filesystem \<Rightarrow> string \<Rightarrow> string option \<Rightarrow> string set" where
  "get_processed_files_from_tracking fs year_name tracking_dir =
     (let p = tracking_file (tracking_dir_of tracking_dir) year_name in
      case files fs p of
        Missing \<Rightarrow> {}
      | File content \<Rightarrow>
          if readable fs p then set (filter (\<lambda>l. l \<noteq> []) (map strip (file_lines content)))
          else {})"

text \<open>
  \<^verbatim>\<open>
  def mark_file_as_processed(file_name, year_name, tracking_dir=None):
      if tracking_dir is None:
          tracking_dir = OUTPUT_DIR
      os.makedirs(tracking_dir, exist_ok=True)
      tracking_file = os.path.join(tracking_dir, f".{year_name}_processed.txt")
      try:
          with open(tracking_file, 'a', encoding='utf-8') as f:
              f.write(f"{file_name}\n")
      except Exception:
          pass
  \<close>
  \<^verbatim>\<open>os.makedirs\<close> stands outside the \<^verbatim>\<open>try\<close>: when it raises, the call raises
  (\<open>Inl\<close>). A failure to open, encode or write is swallowed and leaves the file as it
  was.
\<close>

definition mark_file_as_processed ::
  "filesystem \<Rightarrow> string \<Rightarrow> string \<Rightarrow> string option \<Rightarrow> py_error + filesystem" where
  "mark_file_as_processed fs file_name year_name tracking_dir =
     (let d = tracking_dir_of tracking_dir; p = tracking_file d year_name in
      if \<not> makedirs_ok fs d then Inl OSError
      else if appendable fs p \<and> encodable fs (file_name @ [CHR 0x0A]) then
        Inr (fs\<lparr>files := (files fs)
               (p := File ((case files fs p of Missing \<Rightarrow> [] | File content \<Rightarrow> content)
                           @ file_name @ [CHR 0x0A]))\<rparr>)
      else Inr fs)"

text \<open>\<^verbatim>\<open>markProcessed(fileName, year)\<close> followed by \<^verbatim>\<open>load(year)\<close>: the set that the
  second call returns, or the error of the first.\<close>

definition mark_then_load ::
  "filesystem \<Rightarrow> string \<Rightarrow> string \<Rightarrow> string option \<Rightarrow> py_error + string set" where
  "mark_then_load fs file_name year_name tracking_dir =
     (case mark_file_as_processed fs file_name year_name tracking_dir of
        Inl e \<Rightarrow> Inl e
      | Inr fs' \<Rightarrow> Inr (get_processed_files_from_tracking fs' year_name tracking_dir))"

text \<open>A ledger that \<open>mark_file_as_processed\<close> can extend line by line and that can be read
  back: the path can be appended to and read, and it holds no file yet or an ASCII text
  that is empty or ends with a line terminator.\<close>

definition ledger_ok :: "filesystem \<Rightarrow> string \<Rightarrow> bool" where
  "ledger_ok fs p =
     (appendable fs p \<and> readable fs p
      \<and> (case files fs p of
            Missing \<Rightarrow> True
          | File content \<Rightarrow> is_ascii content \<and> (content = [] \<or> is_newline (last content))))"

text \<open>A file name that a ledger line can hold: ASCII, not blank, no white space at either
  end, no line terminator inside.\<close>

definition plain_name :: "string \<Rightarrow> bool" where
  "plain_name n = (n \<noteq> [] \<and> is_ascii n \<and> strip n = n \<and> \<not> list_ex is_newline n)"

text \<open>An environment in which every call succeeds and no file exists yet.\<close>

definition fresh_fs :: filesystem where
  "fresh_fs = \<lparr>files = (\<lambda>p. Missing), makedirs_ok = (\<lambda>d. True), readable = (\<lambda>p. True),
               appendable = (\<lambda>p. True), encodable = (\<lambda>t. True)\<rparr>"

subsection \<open>The matcher's priority order, stated step by step\<close>

text \<open>
  The four strategies of the matcher as separate functions of the label and the target
  list, to compare with the loops of \<open>match_column_name\<close>. The first target wins within
  a strategy.
\<close>

definition words_of :: "string \<Rightarrow> string set" where
  "words_of label = word_set (normalize_text label)"

definition exact_match :: "string \<Rightarrow> string list \<Rightarrow> string option" where
  "exact_match source targets = find (\<lambda>t. normalize_text t = normalize_text source) targets"

definition wordset_match :: "string \<Rightarrow> string list \<Rightarrow> string option" where
  "wordset_match source targets = find (\<lambda>t. words_of t = words_of source) targets"

definition alias_match :: "string \<Rightarrow> string option" where
  "alias_match source = map_of variations (normalize_text source)"

definition subset_candidate :: "string \<Rightarrow> string \<Rightarrow> bool" where
  "subset_candidate source t = (words_of source \<subset> words_of t \<or> words_of t \<subset> words_of source)"

definition subset_score :: "string \<Rightarrow> string \<Rightarrow> nat" where
  "subset_score source t = card (words_of source \<inter> words_of t)"

text \<open>The first of the candidates with the highest score.\<close>

definition best_of :: "(string \<Rightarrow> nat) \<Rightarrow> string list \<Rightarrow> string option" where
  "best_of score candidates = find (\<lambda>t. score t = foldr max (map score candidates) 0) candidates"

text \<open>The order as the specification words it: every strict-subset candidate competes,
  whatever its score, and the label may be empty.\<close>

definition match_as_specified :: "string \<Rightarrow> string list \<Rightarrow> string option" where
  "match_as_specified source targets =
     (case exact_match source targets of
        Some t \<Rightarrow> Some t
      | None \<Rightarrow>
          (case wordset_match source targets of
             Some t \<Rightarrow> Some t
           | None \<Rightarrow>
               (case alias_match source of
                  Some column \<Rightarrow> Some column
                | None \<Rightarrow>
                    best_of (subset_score source) (filter (subset_candidate source) targets))))"

text \<open>The order of the code: an empty label matches nothing, and a strict-subset
  candidate competes only when it shares a word with the label.\<close>

definition match_by_priority :: "string \<Rightarrow> string list \<Rightarrow> string option" where
  "match_by_priority source targets =
     (if source = [] then None
      else
        case exact_match source targets of
          Some t \<Rightarrow> Some t
        | None \<Rightarrow>
            (case wordset_match source targets of
               Some t \<Rightarrow> Some t
             | None \<Rightarrow>
                 (case alias_match source of
                    Some column \<Rightarrow> Some column
                  | None \<Rightarrow>
                      best_of (subset_score source)
                        (filter (\<lambda>t. subset_candidate source t \<and> 0 < subset_score source t)
                           targets))))"

subsection \<open>Example sheets\<close>

text \<open>A sheet of one column whose rows 3 and 4 both carry an order form number.\<close>

definition sheet_two_order_forms :: sheet where
  "sheet_two_order_forms =
    [[None], [None], [None],
     [Some ''Order form number: A1''],
     [Some ''Order form number: B2'']]"

text \<open>A sheet with an order form number in the header block and the title Brand Name
  on two rows of the title/details table, with different details.\<close>

definition sheet_brand_twice :: sheet where
  "sheet_brand_twice =
    [[None, None, None], [None, None, None], [None, None, None],
     [Some ''Order form number: OF123'', None, None],
     [None, None, None], [None, None, None], [None, None, None], [None, None, None],
     [None, Some ''Brand Name'', Some ''Acme''],
     [None, Some ''Brand Name'', Some ''Other'']]"

text \<open>The same table without the header line: a brand, but no order form, reference
  format number or PO reference.\<close>

definition sheet_brand_only :: sheet where
  "sheet_brand_only =
    [[None, None, None], [None, None, None], [None, None, None],
     [None, None, None],
     [None, None, None], [None, None, None], [None, None, None], [None, None, None],
     [None, Some ''Brand Name'', Some ''Acme''],
     [None, Some ''Brand Name'', Some ''Other'']]"

subsection \<open>Example records\<close>

text \<open>A record with an order form, a PO date, a brand and a quantity.\<close>

definition record_first :: pydict where
  "record_first =
    [(''Order Form'', ''OF123''), (''PO Date'', ''2024-05-01''), (''Brand Name'', ''X''),
     (''Quantity'', ''10'')]"

text \<open>Two records that pass the acceptance test through their reference format number
  and hold none of order form, PO date and brand.\<close>

definition record_ref1 :: pydict where
  "record_ref1 = [(''Reference Format No'', ''R1'')]"

definition record_ref2 :: pydict where
  "record_ref2 = [(''Reference Format No'', ''R2'')]"

text \<open>Two records that differ in which of the three key fields they hold.\<close>

definition record_brand :: pydict where
  "record_brand = [(''Order Form'', ''A''), (''Brand Name'', ''B'')]"

definition record_date :: pydict where
  "record_date = [(''Order Form'', ''A''), (''PO Date'', ''B'')]"

text \<open>A sheet whose title/details table gives a production order form before the order
  form, and the record it yields; a second record of the same order (order form, PO date
  and brand agree) with another production order form.\<close>

definition sheet_production :: sheet where
  "sheet_production =
    [[None, None, None], [None, None, None], [None, None, None], [None, None, None],
     [None, None, None], [None, None, None], [None, None, None], [None, None, None],
     [None, Some ''Production Order Form'', Some ''P7''],
     [None, Some ''Order Form'', Some ''OF123''],
     [None, Some ''PO Date'', Some ''2024-05-01''],
     [None, Some ''Brand Name'', Some ''X'']]"

definition record_p7 :: pydict where
  "record_p7 =
    [(''Production Order Form'', ''P7''), (''Order Form'', ''OF123''),
     (''PO Date'', ''2024-05-01''), (''Brand Name'', ''X'')]"

definition record_p8 :: pydict where
  "record_p8 =
    [(''Production Order Form'', ''P8''), (''Order Form'', ''OF123''),
     (''PO Date'', ''2024-05-01''), (''Brand Name'', ''X'')]"

section \<open>Properties\<close>

subsection \<open>The normalizer\<close>

lemma lower_char_idem: "lower_char (lower_char c) = lower_char c"
  by (auto simp: lower_char_def split: if_splits)

lemma is_sep_lower_char: "is_sep (lower_char c) = is_sep c"
  by (auto simp: lower_char_def is_sep_def isspace_def split: if_splits)

lemma isspace_is_sep: "isspace c \<Longrightarrow> is_sep c"
  by (simp add: is_sep_def)

lemma is_sep_space: "is_sep CHR '' ''"
  by (simp add: is_sep_def isspace_def)

lemma lower_char_space: "lower_char CHR '' '' = CHR '' ''"
  by (simp add: lower_char_def)

lemma set_collapse: "set (collapse P s) \<subseteq> insert CHR '' '' {c \<in> set s. \<not> P c}"
proof (induction P s rule: collapse.induct)
  case (1 P)
  then show ?case by simp
next
  case (2 P c cs)
  show ?case
  proof (cases "P c")
    case True
    have "set (dropWhile P cs) \<subseteq> set cs" by (auto dest: set_dropWhileD)
    with 2(1)[OF True] True show ?thesis by auto
  next
    case False
    with 2(2)[OF False] show ?thesis by auto
  qed
qed

lemma no_adj_Cons_nonspace: "c \<noteq> CHR '' '' \<Longrightarrow> no_adj (c # cs) = no_adj cs"
  by (cases cs) auto

lemma no_adj_collapse: "P CHR '' '' \<Longrightarrow> no_adj (collapse P s)"
proof (induction P s rule: collapse.induct)
  case (1 P)
  then show ?case by simp
next
  case (2 P c cs)
  show ?case
  proof (cases "P c")
    case True
    note ih = 2(1)[OF True 2(3)]
    show ?thesis
    proof (cases "dropWhile P cs")
      case Nil
      then have "collapse P (dropWhile P cs) = []" by (simp only: collapse.simps)
      with True show ?thesis by (simp only: collapse.simps if_True no_adj.simps)
    next
      case (Cons d ds)
      then have "\<not> P d" by (metis hd_dropWhile list.distinct(1) list.sel(1))
      with 2(3) have "d \<noteq> CHR '' ''" by auto
      have "collapse P (dropWhile P cs) = d # collapse P ds"
        using Cons \<open>\<not> P d\<close> by (simp only: collapse.simps if_False)
      with ih True \<open>d \<noteq> CHR '' ''\<close> show ?thesis
        by (simp only: collapse.simps if_True no_adj.simps) simp
    qed
  next
    case False
    with 2(3) have "c \<noteq> CHR '' ''" by auto
    with 2(2)[OF False 2(3)] False show ?thesis by (simp add: no_adj_Cons_nonspace)
  qed
qed

lemma collapse_fix:
  "\<forall>c \<in> set s. P c \<longrightarrow> c = CHR '' '' \<Longrightarrow> no_adj s \<Longrightarrow> collapse P s = s"
proof (induction s)
  case Nil
  then show ?case by simp
next
  case (Cons c cs)
  have ih: "collapse P cs = cs"
    using Cons by (cases cs) auto
  show ?case
  proof (cases "P c")
    case True
    with Cons.prems have c: "c = CHR '' ''" by simp
    have "dropWhile P cs = cs"
    proof (cases cs)
      case Nil then show ?thesis by simp
    next
      case (Cons d ds)
      with c Cons.prems(2) have "d \<noteq> CHR '' ''" by simp
      with Cons Cons.prems(1) have "\<not> P d" by auto
      with Cons show ?thesis by simp
    qed
    with True c ih show ?thesis by simp
  next
    case False
    with ih show ?thesis by simp
  qed
qed

lemma no_adj_append: "no_adj (xs @ ys) \<Longrightarrow> no_adj xs \<and> no_adj ys"
proof (induction xs)
  case Nil
  then show ?case by simp
next
  case (Cons a xs)
  show ?case
  proof (cases xs)
    case Nil
    with Cons.prems show ?thesis by (cases ys) auto
  next
    case (Cons b bs)
    with Cons.prems Cons.IH show ?thesis by auto
  qed
qed

lemma rstrip_decomp: "rstrip s @ rev (takeWhile isspace (rev s)) = s"
  unfolding rstrip_def
  by (metis rev_append rev_rev_ident takeWhile_dropWhile_id)

lemma lstrip_decomp: "takeWhile isspace s @ lstrip s = s"
  unfolding lstrip_def by simp

lemma strip_decomp: "\<exists>pre post. s = pre @ strip s @ post"
proof -
  have "s = rstrip s @ rev (takeWhile isspace (rev s))" by (simp add: rstrip_decomp)
  also have "rstrip s = takeWhile isspace (rstrip s) @ strip s"
    by (simp add: strip_def lstrip_decomp)
  finally show ?thesis by (metis append.assoc)
qed

lemma no_adj_strip: "no_adj s \<Longrightarrow> no_adj (strip s)"
proof -
  assume a: "no_adj s"
  obtain pre post where "s = pre @ strip s @ post" using strip_decomp by blast
  with a have "no_adj (pre @ strip s @ post)" by simp
  then show ?thesis using no_adj_append by blast
qed

lemma set_strip: "set (strip s) \<subseteq> set s"
  by (auto simp: strip_def lstrip_def rstrip_def dest!: set_dropWhileD)

lemma rstrip_fix: "s = [] \<or> \<not> isspace (last s) \<Longrightarrow> rstrip s = s"
proof (cases s rule: rev_cases)
  case Nil
  then show ?thesis by (simp add: rstrip_def)
next
  case (snoc ys y)
  assume "s = [] \<or> \<not> isspace (last s)"
  with snoc show ?thesis by (simp add: rstrip_def)
qed

lemma lstrip_fix: "s = [] \<or> \<not> isspace (hd s) \<Longrightarrow> lstrip s = s"
  by (cases s) (auto simp: lstrip_def)

lemma rstrip_last: "rstrip s = [] \<or> \<not> isspace (last (rstrip s))"
proof (cases "dropWhile isspace (rev s)")
  case Nil
  then show ?thesis by (simp add: rstrip_def)
next
  case (Cons d ds)
  then have "\<not> isspace d" by (metis hd_dropWhile list.distinct(1) list.sel(1))
  with Cons show ?thesis by (simp add: rstrip_def)
qed

lemma last_dropWhile: "dropWhile P xs \<noteq> [] \<Longrightarrow> last (dropWhile P xs) = last xs"
  by (induction xs) (auto split: if_splits)

lemma strip_ends: "strip s = [] \<or> (\<not> isspace (hd (strip s)) \<and> \<not> isspace (last (strip s)))"
proof (cases "strip s = []")
  case True
  then show ?thesis by simp
next
  case False
  then have ne: "dropWhile isspace (rstrip s) \<noteq> []" by (simp add: strip_def lstrip_def)
  then have h: "\<not> isspace (hd (strip s))"
    unfolding strip_def lstrip_def by (rule hd_dropWhile)
  from ne have "rstrip s \<noteq> []" by auto
  with rstrip_last have "\<not> isspace (last (rstrip s))" by blast
  moreover have "last (strip s) = last (rstrip s)"
    unfolding strip_def lstrip_def using ne by (rule last_dropWhile)
  ultimately show ?thesis using h by simp
qed

lemma strip_fix:
  assumes "s = [] \<or> (\<not> isspace (hd s) \<and> \<not> isspace (last s))"
  shows "strip s = s"
proof -
  have "rstrip s = s" using assms by (intro rstrip_fix) blast
  moreover have "lstrip s = s" using assms by (intro lstrip_fix) blast
  ultimately show ?thesis by (simp only: strip_def)
qed

lemma normal_form_normalize: "normal_form (normalize_text s)"
proof (cases "s = []")
  case True
  then show ?thesis by (simp add: normalize_text_def normal_form_def)
next
  case False
  define a where "a = collapse is_sep (lower (strip s))"
  have ok: "\<forall>c \<in> set a. ok_char c"
  proof
    fix c assume "c \<in> set a"
    then have "c = CHR '' '' \<or> (c \<in> set (lower (strip s)) \<and> \<not> is_sep c)"
      using set_collapse[of is_sep "lower (strip s)"] by (auto simp: a_def)
    then show "ok_char c"
      by (auto simp: ok_char_def lower_def lower_char_idem)
  qed
  have na: "no_adj a" by (simp add: a_def no_adj_collapse is_sep_space)
  have "\<forall>c \<in> set a. isspace c \<longrightarrow> c = CHR '' ''"
  proof (intro ballI impI)
    fix c assume c: "c \<in> set a" "isspace c"
    then have "is_sep c" by (simp add: is_sep_def)
    moreover from c ok have "ok_char c" by blast
    ultimately show "c = CHR '' ''" by (simp add: ok_char_def)
  qed
  then have b: "collapse isspace a = a" using na by (rule collapse_fix)
  have n: "normalize_text s = strip a"
    using False b by (simp add: normalize_text_def a_def)
  show ?thesis
    unfolding n normal_form_def
    using ok na set_strip[of a] no_adj_strip[of a] strip_ends[of a] by auto
qed

lemma normalize_normal_form: "normal_form s \<Longrightarrow> normalize_text s = s"
proof (cases "s = []")
  case True
  then show ?thesis by (simp add: normalize_text_def)
next
  case False
  assume nf: "normal_form s"
  then have st: "strip s = s" by (simp add: normal_form_def strip_fix)
  have fixed: "\<And>c. c \<in> set s \<Longrightarrow> lower_char c = c"
  proof -
    fix c assume "c \<in> set s"
    with nf have "ok_char c" by (simp add: normal_form_def)
    then show "lower_char c = c"
      unfolding ok_char_def using lower_char_space by presburger
  qed
  have lo: "lower s = s"
    unfolding lower_def by (rule map_idI) (rule fixed)
  have "\<forall>c \<in> set s. is_sep c \<longrightarrow> c = CHR '' ''"
  proof (intro ballI impI)
    fix c assume c: "c \<in> set s" "is_sep c"
    from c nf have "ok_char c" by (simp add: normal_form_def)
    with c show "c = CHR '' ''" by (simp add: ok_char_def)
  qed
  moreover have "no_adj s" using nf by (simp add: normal_form_def)
  ultimately have c1: "collapse is_sep s = s" by (rule collapse_fix)
  have "\<forall>c \<in> set s. isspace c \<longrightarrow> c = CHR '' ''"
  proof (intro ballI impI)
    fix c assume c: "c \<in> set s" "isspace c"
    then have "is_sep c" by (simp add: is_sep_def)
    moreover from c nf have "ok_char c" by (simp add: normal_form_def)
    ultimately show "c = CHR '' ''" by (simp add: ok_char_def)
  qed
  moreover have "no_adj s" using nf by (simp add: normal_form_def)
  ultimately have c2: "collapse isspace s = s" by (rule collapse_fix)
  show ?thesis using False by (simp add: normalize_text_def st lo c1 c2)
qed

lemma normalize_idem: "normalize_text (normalize_text s) = normalize_text s"
  by (rule normalize_normal_form) (rule normal_form_normalize)

subsection \<open>The normalizer as a function of the words of its input\<close>

lemma rstrip_Cons:
  "rstrip (c # s) = (if rstrip s = [] \<and> isspace c then [] else c # rstrip s)"
proof -
  have "dropWhile isspace (rev s @ [c]) =
        (if dropWhile isspace (rev s) = [] then dropWhile isspace [c]
         else dropWhile isspace (rev s) @ [c])"
    by (auto simp: dropWhile_append)
  then show ?thesis by (auto simp: rstrip_def)
qed

lemma rstrip_Nil: "rstrip [] = []"
  by (simp add: rstrip_def)

lemma rstrip_append_nonempty: "rstrip b \<noteq> [] \<Longrightarrow> rstrip (a @ b) = a @ rstrip b"
  by (induction a) (auto simp: rstrip_Cons)

lemma rstrip_nonspace_run:
  "\<forall>c \<in> set w. \<not> isspace c \<Longrightarrow> rstrip w = w"
  by (induction w) (auto simp: rstrip_Cons rstrip_Nil)

lemma collapse_run:
  "\<forall>c \<in> set w. \<not> P c \<Longrightarrow> collapse P (w @ s) = w @ collapse P s"
  by (induction w) auto

lemma join_words_no_lead:
  "\<forall>w \<in> set ws. w \<noteq> [] \<and> \<not> isspace (hd w) \<Longrightarrow> lstrip (join_words ws) = join_words ws"
proof (cases ws)
  case Nil
  then show ?thesis by (simp add: lstrip_def)
next
  case (Cons w vs)
  assume a: "\<forall>w \<in> set ws. w \<noteq> [] \<and> \<not> isspace (hd w)"
  with Cons obtain c cs where w: "w = c # cs" "\<not> isspace c" by (cases w) auto
  then have "join_words (w # vs) = c # (cs @ (case vs of [] \<Rightarrow> [] | v # vs' \<Rightarrow> CHR '' '' # join_words (v # vs')))"
    by (cases vs) auto
  with w Cons show ?thesis by (simp add: lstrip_def)
qed

lemma tokens_props:
  "\<forall>w \<in> set (tokens P s). w \<noteq> [] \<and> \<not> P (hd w)"
  by (induction P s rule: tokens.induct) auto

text \<open>The right strip of the collapsed text of a string that does not start with a
  separator is the join of its words.\<close>

lemma rstrip_collapse_tokens:
  "s = [] \<or> \<not> is_sep (hd s) \<Longrightarrow> rstrip (collapse is_sep s) = join_words (tokens is_sep s)"
proof (induction "length s" arbitrary: s rule: less_induct)
  case less
  show ?case
  proof (cases s)
    case Nil
    then show ?thesis by (simp add: rstrip_Nil)
  next
    case (Cons c cs)
    with less.prems have c: "\<not> is_sep c" by simp
    define w where "w = c # takeWhile (\<lambda>x. \<not> is_sep x) cs"
    define rest where "rest = dropWhile (\<lambda>x. \<not> is_sep x) cs"
    define u where "u = dropWhile is_sep rest"
    have s: "s = w @ rest" by (simp add: Cons w_def rest_def)
    have wns: "\<forall>x \<in> set w. \<not> is_sep x"
      using c by (auto simp: w_def dest: set_takeWhileD)
    have wsp: "\<forall>x \<in> set w. \<not> isspace x"
      using wns by (auto simp: is_sep_def)
    have tok: "tokens is_sep s = w # tokens is_sep rest"
      using c by (simp add: Cons w_def rest_def)
    have col: "collapse is_sep s = w @ collapse is_sep rest"
      unfolding s using wns by (rule collapse_run)
    show ?thesis
    proof (cases rest)
      case Nil
      with tok col wsp show ?thesis by (simp add: rstrip_nonspace_run)
    next
      case (Cons d ds)
      then have d: "is_sep d"
        unfolding rest_def by (metis hd_dropWhile list.distinct(1) list.sel(1))
      have u_eq: "u = dropWhile is_sep ds" using Cons d by (simp add: u_def)
      have colr: "collapse is_sep rest = CHR '' '' # collapse is_sep u"
        using Cons d by (simp add: u_eq)
      have tokr: "tokens is_sep rest = tokens is_sep u"
      proof -
        have "tokens is_sep (xs @ ys) = tokens is_sep ys" if "\<forall>x \<in> set xs. is_sep x" for xs ys
          using that by (induction xs) auto
        from this[of "takeWhile is_sep rest" u] show ?thesis
          by (simp add: u_def) (metis set_takeWhileD)
      qed
      have ulen: "length u < length s"
      proof -
        have "length u \<le> length ds" unfolding u_eq by (rule length_dropWhile_le)
        also have "\<dots> < length rest" using Cons by simp
        also have "\<dots> \<le> length s" by (simp add: s)
        finally show ?thesis .
      qed
      have ustart: "u = [] \<or> \<not> is_sep (hd u)"
        unfolding u_def by (metis hd_dropWhile)
      have ih: "rstrip (collapse is_sep u) = join_words (tokens is_sep u)"
        using ulen ustart by (rule less.hyps)
      show ?thesis
      proof (cases u)
        case Nil
        have "rstrip (w @ [CHR '' '']) = w"
        proof -
          from w_def obtain x xs where "w = x # xs" by simp
          have "rstrip (w @ [CHR '' '']) = rev (dropWhile isspace (CHR '' '' # rev w))"
            by (simp add: rstrip_def)
          also have "\<dots> = rev (dropWhile isspace (rev w))" by (simp add: isspace_def)
          also have "\<dots> = w" using rstrip_nonspace_run[OF wsp] by (simp add: rstrip_def)
          finally show ?thesis .
        qed
        with Nil tok col colr tokr show ?thesis by simp
      next
        case (Cons e es)
        with ustart have "\<not> is_sep e" by simp
        with Cons obtain t ts where t: "tokens is_sep u = t # ts" by (cases "tokens is_sep u") auto
        from tokens_props[of is_sep u] t have "t \<noteq> []" by simp
        with t have jne: "join_words (tokens is_sep u) \<noteq> []" by (cases ts) auto
        with ih have rn: "rstrip (CHR '' '' # collapse is_sep u) \<noteq> []"
          by (simp add: rstrip_Cons)
        have "rstrip (collapse is_sep s) = w @ rstrip (CHR '' '' # collapse is_sep u)"
          unfolding col colr using rn by (rule rstrip_append_nonempty)
        also have "\<dots> = w @ CHR '' '' # join_words (tokens is_sep u)"
          using ih jne by (simp add: rstrip_Cons)
        also have "\<dots> = join_words (tokens is_sep s)"
          unfolding tok tokr t by simp
        finally show ?thesis .
      qed
    qed
  qed
qed

lemma tokens_skip: "\<forall>x \<in> set xs. P x \<Longrightarrow> tokens P (xs @ ys) = tokens P ys"
  by (induction xs) auto

lemma tokens_dropWhile: "tokens P (dropWhile P s) = tokens P s"
proof -
  have "tokens P (takeWhile P s @ dropWhile P s) = tokens P (dropWhile P s)"
    by (rule tokens_skip) (auto dest: set_takeWhileD)
  then show ?thesis by simp
qed

lemma strip_collapse_tokens: "strip (collapse is_sep s) = join_words (tokens is_sep s)"
proof -
  define u where "u = dropWhile is_sep s"
  have ustart: "u = [] \<or> \<not> is_sep (hd u)" unfolding u_def by (metis hd_dropWhile)
  have r: "rstrip (collapse is_sep u) = join_words (tokens is_sep u)"
    using ustart by (rule rstrip_collapse_tokens)
  have nl: "lstrip (join_words (tokens is_sep u)) = join_words (tokens is_sep u)"
  proof (rule join_words_no_lead)
    show "\<forall>w \<in> set (tokens is_sep u). w \<noteq> [] \<and> \<not> isspace (hd w)"
      using tokens_props[of is_sep u] by (auto simp: is_sep_def)
  qed
  have tk: "tokens is_sep u = tokens is_sep s" unfolding u_def by (rule tokens_dropWhile)
  show ?thesis
  proof (cases s)
    case Nil
    then show ?thesis by (simp add: strip_def lstrip_def rstrip_def)
  next
    case (Cons c cs)
    show ?thesis
    proof (cases "is_sep c")
      case False
      with Cons have "u = s" by (simp add: u_def)
      with r nl show ?thesis by (simp add: strip_def)
    next
      case True
      with Cons have col: "collapse is_sep s = CHR '' '' # collapse is_sep u"
        by (simp add: u_def)
      have "strip (collapse is_sep s) = lstrip (rstrip (CHR '' '' # collapse is_sep u))"
        by (simp add: strip_def col)
      also have "\<dots> = lstrip (join_words (tokens is_sep u))"
        using r by (auto simp: rstrip_Cons lstrip_def isspace_def)
      also have "\<dots> = join_words (tokens is_sep s)" using nl tk by simp
      finally show ?thesis .
    qed
  qed
qed

lemma isspace_lower_char: "isspace (lower_char c) = isspace c"
  by (auto simp: lower_char_def isspace_def split: if_splits)

lemma lower_dropWhile_isspace: "lower (dropWhile isspace s) = dropWhile isspace (lower s)"
  by (induction s) (auto simp: lower_def isspace_lower_char)

lemma lower_strip: "lower (strip s) = strip (lower s)"
proof -
  have "lower (rev t) = rev (lower t)" for t by (simp add: lower_def rev_map)
  then show ?thesis
    by (simp add: strip_def lstrip_def rstrip_def lower_dropWhile_isspace)
qed

lemma tokens_snoc_seps: "\<forall>x \<in> set ys. P x \<Longrightarrow> tokens P (xs @ ys) = tokens P xs"
proof (induction P xs rule: tokens.induct)
  case (1 P)
  then show ?case using tokens_skip[of ys P "[]"] by simp
next
  case (2 P c cs)
  show ?case
  proof (cases "P c")
    case True
    with 2 show ?thesis by simp
  next
    case False
    let ?n = "\<lambda>x. \<not> P x"
    have split: "cs = takeWhile ?n cs @ dropWhile ?n cs" by simp
    show ?thesis
    proof (cases "dropWhile ?n cs = []")
      case True
      then have all: "\<forall>x \<in> set cs. \<not> P x" by (simp add: dropWhile_eq_Nil_conv)
      then have tw: "takeWhile ?n (cs @ ys) = cs @ takeWhile ?n ys"
        by (simp add: takeWhile_append2)
      have dw: "dropWhile ?n (cs @ ys) = dropWhile ?n ys"
        using all by (simp add: dropWhile_append2)
      have ty: "takeWhile ?n ys = []" using 2(3) by (cases ys) auto
      have dy: "dropWhile ?n ys = ys" using 2(3) by (cases ys) auto
      have tcs: "takeWhile ?n cs = cs" using all by simp
      have dcs: "dropWhile ?n cs = []" using all by simp
      have ts: "tokens P ys = []" using tokens_skip[of ys P "[]"] 2(3) by simp
      show ?thesis using False by (simp add: tw dw ty dy tcs dcs ts)
    next
      case False2: False
      then obtain d where d: "d \<in> set cs" "P d" by (auto simp: dropWhile_eq_Nil_conv)
      then have tw: "takeWhile ?n (cs @ ys) = takeWhile ?n cs"
        by (simp add: takeWhile_append1)
      have dw: "dropWhile ?n (cs @ ys) = dropWhile ?n cs @ ys"
        using d by (simp add: dropWhile_append1)
      from 2(2)[OF False 2(3)] False tw dw show ?thesis by simp
    qed
  qed
qed

lemma tokens_strip: "tokens is_sep (strip s) = tokens is_sep s"
proof -
  have sp: "\<forall>x \<in> set (takeWhile isspace t). is_sep x" for t
    by (auto simp: is_sep_def dest: set_takeWhileD)
  have l: "tokens is_sep (lstrip t) = tokens is_sep t" for t
  proof -
    have "tokens is_sep (takeWhile isspace t @ lstrip t) = tokens is_sep (lstrip t)"
      using sp by (rule tokens_skip)
    then show ?thesis by (simp add: lstrip_def)
  qed
  have r: "tokens is_sep (rstrip t) = tokens is_sep t" for t
  proof -
    have "\<forall>x \<in> set (rev (takeWhile isspace (rev t))). is_sep x" using sp by simp
    then have "tokens is_sep (rstrip t @ rev (takeWhile isspace (rev t))) = tokens is_sep (rstrip t)"
      by (rule tokens_snoc_seps)
    then show ?thesis by (simp add: rstrip_decomp)
  qed
  show ?thesis by (simp add: strip_def l r)
qed

lemma normalize_text_words: "normalize_text s = join_words (tokens is_sep (lower s))"
proof (cases "s = []")
  case True
  then show ?thesis by (simp add: normalize_text_def lower_def)
next
  case False
  define a where "a = collapse is_sep (lower (strip s))"
  have ok: "\<forall>c \<in> set a. isspace c \<longrightarrow> c = CHR '' ''"
  proof (intro ballI impI)
    fix c assume c: "c \<in> set a" "isspace c"
    then have "c = CHR '' '' \<or> \<not> is_sep c"
      using set_collapse[of is_sep "lower (strip s)"] by (auto simp: a_def)
    with c show "c = CHR '' ''" by (auto simp: is_sep_def)
  qed
  have na: "no_adj a" by (simp add: a_def no_adj_collapse is_sep_space)
  from ok na have b: "collapse isspace a = a" by (rule collapse_fix)
  have "normalize_text s = strip a"
    using False b by (simp add: normalize_text_def a_def)
  also have "\<dots> = join_words (tokens is_sep (lower (strip s)))"
    unfolding a_def by (rule strip_collapse_tokens)
  also have "\<dots> = join_words (tokens is_sep (lower s))"
    by (simp add: lower_strip tokens_strip)
  finally show ?thesis .
qed

lemma lower_char_upper_char: "lower_char (upper_char c) = lower_char c"
  by (auto simp: lower_char_def upper_char_def split: if_splits)

lemma lower_upper: "lower (upper s) = lower s"
  by (simp add: lower_def upper_def lower_char_upper_char)

lemma lower_lower: "lower (lower s) = lower s"
  by (simp add: lower_def lower_char_idem)

lemma lower_char_ascii: "of_char c < (128::nat) \<Longrightarrow> of_char (lower_char c) < (128::nat)"
  by (auto simp: lower_char_def split: if_splits)

lemma set_collapse_subset: "set (collapse P s) \<subseteq> insert CHR '' '' (set s)"
  using set_collapse[of P s] by auto

lemma is_ascii_normalize_text: "is_ascii s \<Longrightarrow> is_ascii (normalize_text s)"
proof -
  assume a: "is_ascii s"
  have "set (normalize_text s) \<subseteq> insert CHR '' '' (lower_char ` set s)"
  proof (cases "s = []")
    case True
    then show ?thesis by (simp add: normalize_text_def)
  next
    case False
    have "set (lower (strip s)) \<subseteq> lower_char ` set s"
      using set_strip[of s] by (auto simp: lower_def)
    then have "set (collapse is_sep (lower (strip s))) \<subseteq> insert CHR '' '' (lower_char ` set s)"
      using set_collapse_subset[of is_sep "lower (strip s)"] by blast
    then have "set (collapse isspace (collapse is_sep (lower (strip s))))
               \<subseteq> insert CHR '' '' (lower_char ` set s)"
      using set_collapse_subset[of isspace "collapse is_sep (lower (strip s))"] by blast
    then show ?thesis
      using False set_strip[of "collapse isspace (collapse is_sep (lower (strip s)))"]
      by (simp add: normalize_text_def)
  qed
  then have sub: "\<And>c. c \<in> set (normalize_text s) \<Longrightarrow> c = CHR '' '' \<or> c \<in> lower_char ` set s"
    by blast
  have src: "\<And>d. d \<in> set s \<Longrightarrow> of_char d < (128::nat)"
    using a unfolding is_ascii_def list_all_iff by blast
  show ?thesis
    unfolding is_ascii_def list_all_iff
  proof
    fix c assume "c \<in> set (normalize_text s)"
    then consider "c = CHR '' ''" | d where "d \<in> set s" "c = lower_char d"
      using sub by blast
    then show "of_char c < (128::nat)"
    proof cases
      case 1
      then show ?thesis by simp
    next
      case 2
      then show ?thesis using src lower_char_ascii by blast
    qed
  qed
qed

text \<open>
  C6, as amended. On ASCII strings the text normalizer is idempotent, its result is an
  ASCII string again, it sends the empty and the missing input to the empty string, and
  its result is the lower-cased words of the input, where a word is a maximal run of
  characters other than white space and the punctuation \<^verbatim>\<open>_ . - ( )\<close>, joined by single
  spaces. So it is insensitive to case and to the kind and the length of the runs of
  white space and punctuation around and between the words. Punctuation separates
  words, it is not deleted: M.R.P. normalizes to the three words m r p, as every
  spelling with other separators does.
\<close>

theorem normalizer_idempotent:
  assumes "is_ascii s"
  shows "normalize_text (normalize_text s) = normalize_text s
   \<and> is_ascii (normalize_text s)
   \<and> normalize_text [] = []
   \<and> normalize_text_opt None = []
   \<and> normalize_text s = join_words (tokens is_sep (lower s))
   \<and> normalize_text (upper s) = normalize_text s
   \<and> normalize_text (lower s) = normalize_text s
   \<and> normalize_text ''M.R.P.'' = ''m r p''
   \<and> normalize_text '' m  r_p'' = ''m r p''"
proof -
  have e1: "normalize_text ''M.R.P.'' = ''m r p''" by code_simp
  have e2: "normalize_text '' m  r_p'' = ''m r p''" by code_simp
  have i: "normalize_text (normalize_text s) = normalize_text s" by (rule normalize_idem)
  have a: "is_ascii (normalize_text s)" using assms by (rule is_ascii_normalize_text)
  have n: "normalize_text [] = []" by (simp add: normalize_text_def)
  have o: "normalize_text_opt None = []" by (simp add: normalize_text_opt_def)
  have w: "normalize_text s = join_words (tokens is_sep (lower s))" by (rule normalize_text_words)
  have u: "normalize_text (upper s) = normalize_text s"
    unfolding normalize_text_words[of "upper s"] normalize_text_words[of s] lower_upper ..
  have l: "normalize_text (lower s) = normalize_text s"
    unfolding normalize_text_words[of "lower s"] normalize_text_words[of s] lower_lower ..
  from i a n o w u l e1 e2 show ?thesis by (intro conjI)
qed

theorem normalizer_idempotent_witness:
  "is_ascii ''PO  Date (Revised)''
   \<and> normalize_text (normalize_text ''PO  Date (Revised)'') = normalize_text ''PO  Date (Revised)''
   \<and> normalize_text ''PO  Date (Revised)'' = ''po date revised''
   \<and> normalize_text (upper ''PO  Date (Revised)'') = ''po date revised''"
proof -
  have asc: "is_ascii ''PO  Date (Revised)''" by (simp add: is_ascii_def)
  have e: "normalize_text ''PO  Date (Revised)'' = ''po date revised''" by code_simp
  note inst = normalizer_idempotent[OF asc]
  from inst have i: "normalize_text (normalize_text ''PO  Date (Revised)'')
                     = normalize_text ''PO  Date (Revised)''" by (rule conjunct1)
  from inst have "normalize_text (upper ''PO  Date (Revised)'') = normalize_text ''PO  Date (Revised)''"
    by blast
  with e have u: "normalize_text (upper ''PO  Date (Revised)'') = ''po date revised''" by simp
  from asc i e u show ?thesis by (intro conjI)
qed

text \<open>
  The example of the claim fails: M.R.P. normalizes to three words and mrp to one.
\<close>

theorem normalizer_example_counterexample:
  "normalize_text ''M.R.P.'' = ''m r p''
   \<and> normalize_text ''mrp'' = ''mrp''
   \<and> normalize_text ''M.R.P.'' \<noteq> normalize_text ''mrp''"
  by code_simp

subsection \<open>The column matcher\<close>

lemma fuzzy_loop_hit:
  "find (\<lambda>t. word_set (normalize_text t) = sw) ts = Some u \<Longrightarrow> fuzzy_loop sw ts best sc = Inl u"
proof (induction ts arbitrary: best sc)
  case Nil
  then show ?case by simp
next
  case (Cons t ts)
  show ?case
  proof (cases "word_set (normalize_text t) = sw")
    case True
    with Cons.prems show ?thesis by (simp add: Let_def)
  next
    case False
    with Cons.prems have "find (\<lambda>t. word_set (normalize_text t) = sw) ts = Some u" by simp
    then have "\<And>b s. fuzzy_loop sw ts b s = Inl u" by (rule Cons.IH)
    with False show ?thesis by (auto simp: Let_def)
  qed
qed

lemma foldr_max_ge: "a \<le> foldr max xs (a::nat)"
  by (induction xs) (auto simp: max_def)

lemma foldr_max_base: "foldr max xs (max a b) = max a (foldr max xs (b::nat))"
  by (induction xs) (auto simp: max_def)

lemma fuzzy_loop_track:
  assumes "find (\<lambda>t. words_of t = words_of source) ts = None"
  shows "fuzzy_loop (words_of source) ts best sc =
           Inr (let m = foldr max (map (subset_score source) (filter (subset_candidate source) ts)) sc in
                if sc < m then find (\<lambda>t. subset_candidate source t \<and> subset_score source t = m) ts
                else best)"
  using assms
proof (induction ts arbitrary: best sc)
  case Nil
  then show ?case by simp
next
  case (Cons t ts)
  from Cons.prems have ne: "words_of source \<noteq> words_of t"
    and rest: "find (\<lambda>t. words_of t = words_of source) ts = None"
    by (auto split: if_splits)
  have unfold: "fuzzy_loop (words_of source) (t # ts) b s =
      (if subset_candidate source t \<and> s < subset_score source t
       then fuzzy_loop (words_of source) ts (Some t) (subset_score source t)
       else fuzzy_loop (words_of source) ts b s)" for b s
    using ne unfolding subset_candidate_def subset_score_def words_of_def
    by (simp add: Let_def psubset_eq)
  define m0 where "m0 = foldr max (map (subset_score source) (filter (subset_candidate source) ts)) sc"
  have m0: "sc \<le> m0" unfolding m0_def by (rule foldr_max_ge)
  show ?case
  proof (cases "subset_candidate source t \<and> sc < subset_score source t")
    case True
    have step: "fuzzy_loop (words_of source) (t # ts) best sc
                = fuzzy_loop (words_of source) ts (Some t) (subset_score source t)"
      unfolding unfold using True by simp
    have m: "foldr max (map (subset_score source) (filter (subset_candidate source) (t # ts))) sc
             = max (subset_score source t) m0"
      using True by (simp add: m0_def)
    have m': "foldr max (map (subset_score source) (filter (subset_candidate source) ts)) (subset_score source t)
              = max (subset_score source t) m0"
    proof -
      have "subset_score source t = max (subset_score source t) sc" using True by (simp add: max_def)
      then have "foldr max (map (subset_score source) (filter (subset_candidate source) ts)) (subset_score source t)
                 = foldr max (map (subset_score source) (filter (subset_candidate source) ts))
                     (max (subset_score source t) sc)" by simp
      also have "\<dots> = max (subset_score source t) m0" unfolding m0_def by (rule foldr_max_base)
      finally show ?thesis .
    qed
    show ?thesis
      unfolding step Cons.IH[OF rest] m m'
      using True m0 by (auto simp: Let_def max_def)
  next
    case False
    have step: "fuzzy_loop (words_of source) (t # ts) best sc = fuzzy_loop (words_of source) ts best sc"
      unfolding unfold using False by auto
    have m: "foldr max (map (subset_score source) (filter (subset_candidate source) (t # ts))) sc = m0"
      using False m0 by (auto simp: m0_def[symmetric] max_def)
    have skip: "sc < m0 \<Longrightarrow> \<not> (subset_candidate source t \<and> subset_score source t = m0)"
      using False by auto
    show ?thesis
      unfolding step Cons.IH[OF rest] m m0_def[symmetric]
      using skip by (auto simp: Let_def)
  qed
qed

lemma find_filter: "find P (filter Q xs) = find (\<lambda>x. Q x \<and> P x) xs"
  by (induction xs) auto

lemma foldr_max_pos:
  "foldr max (map f (filter (\<lambda>x. Q x \<and> 0 < f x) xs)) (0::nat) = foldr max (map f (filter Q xs)) 0"
  by (induction xs) (auto simp: max_def)

lemma find_cong_all: "(\<And>x. x \<in> set xs \<Longrightarrow> P x = Q x) \<Longrightarrow> find P xs = find Q xs"
  by (induction xs) auto

lemma best_of_positive:
  "best_of f (filter (\<lambda>x. Q x \<and> 0 < f x) xs) =
     (let m = foldr max (map f (filter Q xs)) 0 in
      if 0 < m then find (\<lambda>x. Q x \<and> f x = m) xs else None)"
proof -
  define m where "m = foldr max (map f (filter Q xs)) 0"
  have "best_of f (filter (\<lambda>x. Q x \<and> 0 < f x) xs) = find (\<lambda>x. (Q x \<and> 0 < f x) \<and> f x = m) xs"
    by (simp add: best_of_def foldr_max_pos find_filter m_def)
  also have "\<dots> = (if 0 < m then find (\<lambda>x. Q x \<and> f x = m) xs else None)"
  proof (cases "0 < m")
    case True
    then show ?thesis by (auto intro!: find_cong_all)
  next
    case False
    then have "find (\<lambda>x. (Q x \<and> 0 < f x) \<and> f x = m) xs = None"
      by (auto simp: find_None_iff)
    with False show ?thesis by simp
  qed
  finally show ?thesis by (simp add: m_def Let_def)
qed

text \<open>
  C2, as amended. For every source label and every list of target columns,
  \<open>match_column_name\<close> resolves in strict priority order, the first hit winning: an
  exact match of the normalized texts is returned first; otherwise the first target with
  the label's word set; otherwise the alias table's column for the normalized label, in
  preference to any subset-based candidate; otherwise the best strict-subset candidate,
  which is the first one with the highest score (the size of the intersection of the
  word sets) among the candidates that share at least one word with the label;
  otherwise nothing. An empty label matches nothing.
\<close>

theorem matcher_priority_order:
  "match_column_name source targets = match_by_priority source targets"
proof (cases "source = []")
  case True
  then show ?thesis by (simp add: match_column_name_def match_by_priority_def)
next
  case False
  have code: "match_column_name source targets =
      (case exact_match source targets of
         Some t \<Rightarrow> Some t
       | None \<Rightarrow>
          (case fuzzy_loop (words_of source) targets None 0 of
             Inl t \<Rightarrow> Some t
           | Inr best_match \<Rightarrow>
              (case alias_match source of Some c \<Rightarrow> Some c | None \<Rightarrow> best_match)))"
    unfolding match_column_name_def exact_match_def alias_match_def words_of_def Let_def
    using False by simp
  show ?thesis
  proof (cases "wordset_match source targets")
    case (Some u)
    then have "fuzzy_loop (words_of source) targets None 0 = Inl u"
      by (intro fuzzy_loop_hit) (simp add: wordset_match_def words_of_def)
    with Some False show ?thesis
      unfolding code by (simp add: match_by_priority_def split: option.splits)
  next
    case None
    then have "find (\<lambda>t. words_of t = words_of source) targets = None"
      by (simp add: wordset_match_def)
    from fuzzy_loop_track[OF this, of None 0]
    have "fuzzy_loop (words_of source) targets None 0 =
       Inr (best_of (subset_score source)
             (filter (\<lambda>t. subset_candidate source t \<and> 0 < subset_score source t) targets))"
      unfolding best_of_positive .
    with None False show ?thesis
      unfolding code by (simp add: match_by_priority_def split: option.splits)
  qed
qed

theorem matcher_priority_order_witness:
  "match_by_priority ''PO Date'' [''PO Date (Revised)'', ''PO Date''] = Some ''PO Date''
   \<and> match_column_name ''PO Date'' [''PO Date (Revised)'', ''PO Date''] = Some ''PO Date''
   \<and> match_column_name ''po'' [''PO Date (Revised)'', ''PO Date''] = Some ''PO Date (Revised)''
   \<and> match_column_name ''mrp'' [''M.R.P. (Per Strip)''] = Some ''M.R.P.''"
proof -
  have "match_by_priority ''PO Date'' [''PO Date (Revised)'', ''PO Date''] = Some ''PO Date''"
    by code_simp
  moreover have "match_by_priority ''po'' [''PO Date (Revised)'', ''PO Date''] = Some ''PO Date (Revised)''"
    by code_simp
  moreover have "match_by_priority ''mrp'' [''M.R.P. (Per Strip)''] = Some ''M.R.P.''"
    by code_simp
  ultimately show ?thesis
    using matcher_priority_order[of "''PO Date''" "[''PO Date (Revised)'', ''PO Date'']"]
      matcher_priority_order[of "''po''" "[''PO Date (Revised)'', ''PO Date'']"]
      matcher_priority_order[of "''mrp''" "[''M.R.P. (Per Strip)'']"]
    by simp
qed

text \<open>
  The claim as worded fails on a label without words against a target with words: the
  empty word set is a strict subset of the target's, so the target is a strict-subset
  candidate and the wording returns it, while the code, whose best score starts at 0 and
  must be exceeded, returns nothing. It fails also on the empty label against a target
  that normalizes to the empty text, which the wording matches exactly and the code's
  first test refuses.
\<close>

theorem matcher_priority_order_counterexample:
  "match_column_name ''-'' [''Jar''] = None
   \<and> match_as_specified ''-'' [''Jar''] = Some ''Jar''
   \<and> match_column_name [] [''.''] = None
   \<and> match_as_specified [] [''.''] = Some ''.''"
  by code_simp

subsection \<open>The sheet extractor\<close>

lemma dict_get_dict_set:
  "dict_get (dict_set k v d) k' = (if k' = k then Some v else dict_get d k')"
  by (induction d) (auto simp: dict_get_def)

lemma title_row_keeps:
  assumes "dict_get data col = Some v"
  shows "dict_get (title_row df data row_idx) col = Some v"
proof -
  have keep: "dict_get (dict_set m w data) col = Some v" if "\<not> has_key m data" for m w
  proof -
    from that assms have "col \<noteq> m" by (auto simp: has_key_def)
    with assms show ?thesis by (simp add: dict_get_dict_set)
  qed
  show ?thesis
    using assms keep
    by (auto simp: title_row_def Let_def split: option.splits)
qed

lemma title_rows_keep:
  "dict_get data col = Some v \<Longrightarrow> dict_get (foldl (title_row df) data rows) col = Some v"
  by (induction rows arbitrary: data) (auto simp: title_row_keeps)

lemma header_step_other:
  "fst fld \<noteq> k \<Longrightarrow> dict_get (header_step df i data fld) k = dict_get data k"
  by (simp add: header_step_def dict_get_dict_set split: option.splits)

lemma header_step_same:
  "dict_get (header_step df i data fld) (fst fld) =
     (case header_value df i fld of None \<Rightarrow> dict_get data (fst fld) | Some m \<Rightarrow> Some m)"
  by (simp add: header_step_def dict_get_dict_set split: option.splits)

lemma header_steps_other:
  "k \<notin> fst ` set flds \<Longrightarrow> dict_get (foldl (header_step df i) data flds) k = dict_get data k"
  by (induction flds arbitrary: data) (auto simp: header_step_other)

lemma header_steps_same:
  "distinct (map fst flds) \<Longrightarrow> fld \<in> set flds \<Longrightarrow>
   dict_get (foldl (header_step df i) data flds) (fst fld) =
     (case header_value df i fld of None \<Rightarrow> dict_get data (fst fld) | Some m \<Rightarrow> Some m)"
proof (induction flds arbitrary: data)
  case Nil
  then show ?case by simp
next
  case (Cons f flds)
  show ?case
  proof (cases "f = fld")
    case True
    with Cons.prems have "fst fld \<notin> fst ` set flds" by auto
    then show ?thesis
      using True by (simp add: header_steps_other header_step_same)
  next
    case False
    with Cons.prems have in_rest: "fld \<in> set flds" and d: "distinct (map fst flds)" by auto
    from Cons.prems in_rest have "fst f \<noteq> fst fld" by force
    then show ?thesis
      using Cons.IH[OF d in_rest] by (simp add: header_step_other split: option.splits)
  qed
qed

lemma header_fields_distinct: "distinct (map fst header_fields)"
  by (simp add: header_fields_def)

lemma header_value_no_columns: "ncols df = 0 \<Longrightarrow> header_value df i fld = None"
  by (cases fld) (simp add: header_value_def safe_extract_def)

lemma header_row_field:
  "fld \<in> set header_fields \<Longrightarrow>
   dict_get (header_row df data i) (fst fld) =
     (case header_value df i fld of None \<Rightarrow> dict_get data (fst fld) | Some m \<Rightarrow> Some m)"
  by (cases "ncols df = 0")
     (simp_all add: header_row_def header_steps_same header_fields_distinct header_value_no_columns)

lemma map_filter_snoc:
  "List.map_filter f (xs @ [x]) = List.map_filter f xs @ (case f x of None \<Rightarrow> [] | Some y \<Rightarrow> [y])"
  by (simp add: List.map_filter_def split: option.splits)

lemma header_rows_field:
  assumes "fld \<in> set header_fields"
  shows "dict_get (foldl (header_row df) data rows) (fst fld) =
     (case List.map_filter (\<lambda>i. header_value df i fld) rows of
        [] \<Rightarrow> dict_get data (fst fld)
      | v # vs \<Rightarrow> Some (last (v # vs)))"
proof (induction rows rule: rev_induct)
  case Nil
  then show ?case by (simp add: List.map_filter_def)
next
  case (snoc i rows)
  show ?case
    using snoc header_row_field[OF assms, where df = df and data = "foldl (header_row df) data rows" and i = i]
    by (auto simp: map_filter_snoc split: option.splits list.splits)
qed

text \<open>
  C3, as amended. In the header metadata scan (first column of rows 3..9, 0-indexed,
  inclusive, as far as the sheet has them) the last qualifying row per structured header
  field is kept: after the scan the field holds the value of the last row in the range
  that matches the field's keyword and yields a non-empty value under the field's
  pattern, and nothing when no row does; a later qualifying row overwrites an earlier
  one. The title/details scan leaves that value in place, so it is the one in the
  extracted record.
\<close>

theorem header_last_row_wins:
  assumes "fld \<in> set header_fields"
  shows "dict_get (header_scan df []) (fst fld) =
           (case List.map_filter (\<lambda>i. header_value df i fld) [3 ..< min 10 (nrows df)] of
              [] \<Rightarrow> None
            | v # vs \<Rightarrow> Some (last (v # vs)))
         \<and> (List.map_filter (\<lambda>i. header_value df i fld) [3 ..< min 10 (nrows df)] \<noteq> [] \<longrightarrow>
              dict_get (build_record df) (fst fld) =
                Some (last (List.map_filter (\<lambda>i. header_value df i fld) [3 ..< min 10 (nrows df)])))"
proof -
  have scan: "dict_get (header_scan df []) (fst fld) =
           (case List.map_filter (\<lambda>i. header_value df i fld) [3 ..< min 10 (nrows df)] of
              [] \<Rightarrow> None
            | v # vs \<Rightarrow> Some (last (v # vs)))"
    unfolding header_scan_def header_rows_field[OF assms]
    by (simp add: dict_get_def split: list.splits)
  moreover have "dict_get (build_record df) (fst fld) = Some w"
    if "dict_get (header_scan df []) (fst fld) = Some w" for w
    unfolding build_record_def title_scan_def using that by (rule title_rows_keep)
  ultimately show ?thesis
    by (auto split: list.splits)
qed

theorem header_last_row_wins_witness:
  "header_fields ! 1 \<in> set header_fields
   \<and> fst (header_fields ! 1) = ''Order Form''
   \<and> List.map_filter (\<lambda>i. header_value sheet_two_order_forms i (header_fields ! 1))
        [3 ..< min 10 (nrows sheet_two_order_forms)] = [''A1'', ''B2'']
   \<and> dict_get (header_scan sheet_two_order_forms []) ''Order Form'' = Some ''B2''
   \<and> dict_get (build_record sheet_two_order_forms) ''Order Form'' = Some ''B2''"
proof -
  have m: "header_fields ! 1 \<in> set header_fields" by (simp add: header_fields_def)
  have k: "fst (header_fields ! 1) = ''Order Form''" by (simp add: header_fields_def)
  have vs: "List.map_filter (\<lambda>i. header_value sheet_two_order_forms i (header_fields ! 1))
        [3 ..< min 10 (nrows sheet_two_order_forms)] = [''A1'', ''B2'']"
    by code_simp
  show ?thesis
    using header_last_row_wins[OF m, where df = sheet_two_order_forms] m
    unfolding vs k by simp
qed

text \<open>
  The claim as worded, that the earlier of two qualifying rows is kept, fails on a sheet
  whose rows 3 and 4 both give an order form number: the record holds the one of row 4.
\<close>

theorem header_first_row_counterexample:
  "header_value sheet_two_order_forms 3 (header_fields ! 1) = Some ''A1''
   \<and> header_value sheet_two_order_forms 4 (header_fields ! 1) = Some ''B2''
   \<and> extract_data_from_sheet sheet_two_order_forms = Some [(''Order Form'', ''B2'')]"
  by code_simp

text \<open>
  C4. The extractor returns a record only if at least one of Order Form, Reference
  Format No and PO Reference was populated while the record was built: when the built
  record holds none of the three keys the result is absent, whatever else it holds, and
  a record that is returned is the built record and holds one of the three.
\<close>

theorem acceptance_gate:
  "(\<not> has_key ''Order Form'' (build_record df) \<and> \<not> has_key ''Reference Format No'' (build_record df)
      \<and> \<not> has_key ''PO Reference'' (build_record df)
     \<longrightarrow> extract_data_from_sheet df = None)
   \<and> (\<forall>d. extract_data_from_sheet df = Some d \<longrightarrow>
         d = build_record df
         \<and> (has_key ''Order Form'' d \<or> has_key ''Reference Format No'' d \<or> has_key ''PO Reference'' d))"
  by (auto simp: extract_data_from_sheet_def Let_def split: if_splits)

theorem acceptance_gate_witness:
  "build_record sheet_brand_only = [(''Brand Name'', ''Acme'')]
   \<and> extract_data_from_sheet sheet_brand_only = None
   \<and> extract_data_from_sheet sheet_brand_twice = Some (build_record sheet_brand_twice)
   \<and> has_key ''Order Form'' (build_record sheet_brand_twice)"
proof -
  have b: "build_record sheet_brand_only = [(''Brand Name'', ''Acme'')]" by code_simp
  have e: "extract_data_from_sheet sheet_brand_twice
           = Some [(''Order Form'', ''OF123''), (''Brand Name'', ''Acme'')]" by code_simp
  have n: "\<not> has_key ''Order Form'' (build_record sheet_brand_only)
           \<and> \<not> has_key ''Reference Format No'' (build_record sheet_brand_only)
           \<and> \<not> has_key ''PO Reference'' (build_record sheet_brand_only)"
    unfolding b by (simp add: has_key_def dict_get_def)
  from acceptance_gate[of sheet_brand_only] n
  have none: "extract_data_from_sheet sheet_brand_only = None" by blast
  from acceptance_gate[of sheet_brand_twice] e
  have eq: "[(''Order Form'', ''OF123''), (''Brand Name'', ''Acme'')] = build_record sheet_brand_twice"
    by blast
  have k: "has_key ''Order Form'' (build_record sheet_brand_twice)"
    unfolding eq[symmetric] by (simp add: has_key_def dict_get_def)
  from b none e eq k show ?thesis by simp
qed

lemma title_row_offer:
  "title_row df data row_idx =
     (case title_offer df row_idx of
        None \<Rightarrow> data
      | Some (col, v) \<Rightarrow> if has_key col data then data else dict_set col v data)"
  by (auto simp: title_row_def title_offer_def Let_def split: option.splits)

text \<open>
  C7. In the title/details scan the first occurrence of a column wins: a column that the
  record being built already holds keeps its value through one more row and through any
  sequence of further rows of the scan, whatever their titles and details; and a row
  whose title resolves to a column the record does not hold yet stores its value there,
  where it stays through all later rows.
\<close>

theorem first_title_wins:
  "(dict_get data col = Some v \<longrightarrow>
      dict_get (title_row df data row_idx) col = Some v
      \<and> dict_get (foldl (title_row df) data rows) col = Some v
      \<and> dict_get (title_scan df data) col = Some v)
   \<and> (title_offer df row_idx = Some (col, w) \<and> \<not> has_key col data \<longrightarrow>
      dict_get (foldl (title_row df) data (row_idx # rows)) col = Some w)"
proof -
  have "dict_get (foldl (title_row df) data (row_idx # rows)) col = Some w"
    if "title_offer df row_idx = Some (col, w)" "\<not> has_key col data"
  proof -
    from that have "dict_get (title_row df data row_idx) col = Some w"
      by (simp add: title_row_offer dict_get_dict_set)
    then show ?thesis by (simp add: title_rows_keep)
  qed
  then show ?thesis
    by (simp add: title_row_keeps title_rows_keep title_scan_def)
qed

theorem first_title_wins_witness:
  "title_offer sheet_brand_twice 8 = Some (''Brand Name'', ''Acme'')
   \<and> title_offer sheet_brand_twice 9 = Some (''Brand Name'', ''Other'')
   \<and> header_scan sheet_brand_twice [] = [(''Order Form'', ''OF123'')]
   \<and> dict_get (build_record sheet_brand_twice) ''Brand Name'' = Some ''Acme''
   \<and> dict_get (build_record sheet_brand_twice) ''Order Form'' = Some ''OF123''"
proof -
  have o8: "title_offer sheet_brand_twice 8 = Some (''Brand Name'', ''Acme'')" by code_simp
  have o9: "title_offer sheet_brand_twice 9 = Some (''Brand Name'', ''Other'')" by code_simp
  have h: "header_scan sheet_brand_twice [] = [(''Order Form'', ''OF123'')]" by code_simp
  have nk: "\<not> has_key ''Brand Name'' (header_scan sheet_brand_twice [])"
    unfolding h by (simp add: has_key_def dict_get_def)
  have s: "build_record sheet_brand_twice
           = foldl (title_row sheet_brand_twice) (header_scan sheet_brand_twice []) [8, 9]"
    by (simp add: build_record_def title_scan_def nrows_def sheet_brand_twice_def upt_rec)
  have f: "dict_get (header_scan sheet_brand_twice []) ''Order Form'' = Some ''OF123''"
    unfolding h by (simp add: dict_get_def)
  from first_title_wins[where df = sheet_brand_twice and row_idx = 8 and rows = "[9]"
      and col = "''Brand Name''" and w = "''Acme''" and data = "header_scan sheet_brand_twice []"]
    o8 nk
  have b: "dict_get (build_record sheet_brand_twice) ''Brand Name'' = Some ''Acme''"
    unfolding s by blast
  from first_title_wins[where df = sheet_brand_twice and rows = "[8, 9]"
      and col = "''Order Form''" and v = "''OF123''" and data = "header_scan sheet_brand_twice []"]
    f
  have c: "dict_get (build_record sheet_brand_twice) ''Order Form'' = Some ''OF123''"
    unfolding s by blast
  from o8 o9 h b c show ?thesis by (intro conjI)
qed

subsection \<open>The year aggregator\<close>

lemma drop_duplicates_subset: "set (drop_duplicates seen xs) \<subseteq> set xs"
  by (induction seen xs rule: drop_duplicates.induct) auto

lemma drop_duplicates_mem:
  "x \<in> set (drop_duplicates seen xs) \<longleftrightarrow>
     (\<exists>p < length xs. xs ! p = x \<and> fst x \<notin> set seen \<and> fst x \<notin> fst ` set (take p xs))"
proof (induction seen xs rule: drop_duplicates.induct)
  case (1 seen)
  then show ?case by simp
next
  case (2 seen k r rest)
  show ?case
  proof (cases "k \<in> set seen")
    case True
    have "(\<exists>p < length ((k, r) # rest). ((k, r) # rest) ! p = x \<and> fst x \<notin> set seen
              \<and> fst x \<notin> fst ` set (take p ((k, r) # rest)))
          \<longleftrightarrow> (\<exists>q < length rest. rest ! q = x \<and> fst x \<notin> set seen \<and> fst x \<notin> fst ` set (take q rest))"
      (is "?L \<longleftrightarrow> ?R")
    proof
      assume ?L
      then obtain p where p: "p < length ((k, r) # rest)" "((k, r) # rest) ! p = x"
        "fst x \<notin> set seen" "fst x \<notin> fst ` set (take p ((k, r) # rest))" by blast
      from p True have "p \<noteq> 0" by (cases p) auto
      then obtain q where q: "p = Suc q" by (cases p) auto
      with p show ?R by auto
    next
      assume ?R
      then obtain q where q: "q < length rest" "rest ! q = x" "fst x \<notin> set seen"
        "fst x \<notin> fst ` set (take q rest)" by blast
      from q True have "fst x \<noteq> k" by auto
      with q have "Suc q < length ((k, r) # rest) \<and> ((k, r) # rest) ! Suc q = x \<and> fst x \<notin> set seen
        \<and> fst x \<notin> fst ` set (take (Suc q) ((k, r) # rest))" by auto
      then show ?L by blast
    qed
    with 2(1)[OF True] True show ?thesis by simp
  next
    case False
    have "(\<exists>p < length ((k, r) # rest). ((k, r) # rest) ! p = x \<and> fst x \<notin> set seen
              \<and> fst x \<notin> fst ` set (take p ((k, r) # rest)))
          \<longleftrightarrow> x = (k, r) \<or> (\<exists>q < length rest. rest ! q = x \<and> fst x \<notin> set (k # seen)
                 \<and> fst x \<notin> fst ` set (take q rest))"
      (is "?L \<longleftrightarrow> ?R")
    proof
      assume ?L
      then obtain p where p: "p < length ((k, r) # rest)" "((k, r) # rest) ! p = x"
        "fst x \<notin> set seen" "fst x \<notin> fst ` set (take p ((k, r) # rest))" by blast
      show ?R
      proof (cases p)
        case 0
        with p show ?thesis by simp
      next
        case (Suc q)
        with p have "q < length rest \<and> rest ! q = x \<and> fst x \<notin> set (k # seen)
                 \<and> fst x \<notin> fst ` set (take q rest)" by auto
        then show ?thesis by blast
      qed
    next
      assume ?R
      then show ?L
      proof
        assume "x = (k, r)"
        with False have "0 < length ((k, r) # rest) \<and> ((k, r) # rest) ! 0 = x \<and> fst x \<notin> set seen
          \<and> fst x \<notin> fst ` set (take 0 ((k, r) # rest))" by simp
        then show ?L by blast
      next
        assume "\<exists>q < length rest. rest ! q = x \<and> fst x \<notin> set (k # seen)
                 \<and> fst x \<notin> fst ` set (take q rest)"
        then obtain q where q: "q < length rest" "rest ! q = x" "fst x \<notin> set (k # seen)"
          "fst x \<notin> fst ` set (take q rest)" by blast
        then have "Suc q < length ((k, r) # rest) \<and> ((k, r) # rest) ! Suc q = x \<and> fst x \<notin> set seen
          \<and> fst x \<notin> fst ` set (take (Suc q) ((k, r) # rest))" by auto
        then show ?L by blast
      qed
    qed
    with 2(2)[OF False] False show ?thesis by simp
  qed
qed

lemma duplicate_keys_length:
  "length row_ids = length rows \<Longrightarrow> length (duplicate_keys row_ids rows) = length rows"
  by (simp add: duplicate_keys_def)

lemma duplicate_keys_nth:
  "length row_ids = length rows \<Longrightarrow> m < length rows \<Longrightarrow>
   duplicate_keys row_ids rows ! m = create_key (row_ids ! m) (rows ! m)"
  by (simp add: duplicate_keys_def)

lemma dedup_frame_mem:
  assumes len: "length row_ids = length rows"
  shows "(m, r) \<in> set (dedup_frame row_ids rows) \<longleftrightarrow>
     m < length rows \<and> r = rows ! m
     \<and> (\<forall>m' < m. create_key (row_ids ! m') (rows ! m') \<noteq> create_key (row_ids ! m) (rows ! m))"
proof -
  define ks where "ks = duplicate_keys row_ids rows"
  define xs where "xs = zip ks (zip [0 ..< length rows] rows)"
  have lk: "length ks = length rows" unfolding ks_def using len by (rule duplicate_keys_length)
  have lx: "length xs = length rows" by (simp add: xs_def lk)
  have nth: "xs ! p = (ks ! p, (p, rows ! p))" if "p < length rows" for p
    using that by (simp add: xs_def lk)
  have tk: "fst ` set (take p xs) = set (take p ks)" if "p \<le> length rows" for p
  proof -
    have "map fst (take p xs) = take p ks"
      unfolding xs_def take_zip by (simp add: lk)
    then have "set (map fst (take p xs)) = set (take p ks)" by simp
    then show ?thesis by simp
  qed
  have kn: "ks ! p = create_key (row_ids ! p) (rows ! p)" if "p < length rows" for p
    unfolding ks_def using len that by (rule duplicate_keys_nth)
  have "(m, r) \<in> set (dedup_frame row_ids rows) \<longleftrightarrow> (\<exists>k. (k, (m, r)) \<in> set (drop_duplicates [] xs))"
    by (force simp: dedup_frame_def xs_def ks_def)
  also have "\<dots> \<longleftrightarrow> (\<exists>k. \<exists>p < length rows. xs ! p = (k, (m, r)) \<and> k \<notin> set (take p ks))"
  proof -
    have "(k, (m, r)) \<in> set (drop_duplicates [] xs)
          \<longleftrightarrow> (\<exists>p < length rows. xs ! p = (k, (m, r)) \<and> k \<notin> set (take p ks))" for k
    proof -
      have "(k, (m, r)) \<in> set (drop_duplicates [] xs)
          \<longleftrightarrow> (\<exists>p < length rows. xs ! p = (k, (m, r)) \<and> k \<notin> fst ` set (take p xs))"
        unfolding drop_duplicates_mem lx by simp
      also have "\<dots> \<longleftrightarrow> (\<exists>p < length rows. xs ! p = (k, (m, r)) \<and> k \<notin> set (take p ks))"
      proof -
        have "fst ` set (take p xs) = set (take p ks)" if "p < length rows" for p
          using that by (intro tk) simp
        then show ?thesis by metis
      qed
      finally show ?thesis .
    qed
    then show ?thesis by simp
  qed
  also have "\<dots> \<longleftrightarrow> m < length rows \<and> r = rows ! m \<and> ks ! m \<notin> set (take m ks)"
    using nth by auto
  also have "ks ! m \<notin> set (take m ks) \<longleftrightarrow> (\<forall>m' < m. ks ! m' \<noteq> ks ! m)" if "m < length rows"
    using that lk by (auto simp: in_set_conv_nth)
  then have "m < length rows \<and> r = rows ! m \<and> ks ! m \<notin> set (take m ks)
     \<longleftrightarrow> m < length rows \<and> r = rows ! m \<and> (\<forall>m' < m. ks ! m' \<noteq> ks ! m)" by blast
  also have "\<dots> \<longleftrightarrow> m < length rows \<and> r = rows ! m
     \<and> (\<forall>m' < m. create_key (row_ids ! m') (rows ! m') \<noteq> create_key (row_ids ! m) (rows ! m))"
    using kn by auto
  finally show ?thesis .
qed

lemma create_key_parts:
  "key_parts r = key_parts r' \<Longrightarrow> key_parts r \<noteq> [] \<Longrightarrow> create_key a r = create_key b r'"
  by (simp add: create_key_def)

lemma row_get_project:
  "col \<in> set REQUIRED_COLUMNS \<Longrightarrow> row_get (project_record rcd) col = lookup_value rcd col"
  by (simp add: row_get_def project_record_def map_of_zip_map)

lemma length_project_record: "length (project_record record) = length REQUIRED_COLUMNS"
  by (simp add: project_record_def)

lemma length_REQUIRED_COLUMNS: "length REQUIRED_COLUMNS = 86"
  by (simp add: REQUIRED_COLUMNS_def)

lemma distinct_REQUIRED_COLUMNS: "distinct REQUIRED_COLUMNS"
  by code_simp

lemma dedup_frame_rows: "(m, r) \<in> set (dedup_frame row_ids rows) \<Longrightarrow> r \<in> set rows"
proof -
  assume "(m, r) \<in> set (dedup_frame row_ids rows)"
  then obtain k where "(k, (m, r)) \<in> set (drop_duplicates []
       (zip (duplicate_keys row_ids rows) (zip [0 ..< length rows] rows)))"
    by (force simp: dedup_frame_def)
  with drop_duplicates_subset
  have "(k, (m, r)) \<in> set (zip (duplicate_keys row_ids rows) (zip [0 ..< length rows] rows))"
    by blast
  then have "(m, r) \<in> set (zip [0 ..< length rows] rows)" by (rule set_zip_rightD)
  then show ?thesis by (rule set_zip_rightD)
qed

lemma lookup_value_None:
  "lookup_value record col = None \<longleftrightarrow>
     (\<forall>item \<in> set record. match_column_name (fst item) [col] \<noteq> Some col)"
  by (auto simp: lookup_value_def find_None_iff)

lemma key_columns:
  "''Order Form'' \<in> set REQUIRED_COLUMNS" "''PO Date'' \<in> set REQUIRED_COLUMNS"
  "''Brand Name'' \<in> set REQUIRED_COLUMNS" "''Quantity'' \<in> set REQUIRED_COLUMNS"
  by (simp_all add: REQUIRED_COLUMNS_def)

lemma lookup_record_p7:
  "lookup_value record_p7 ''Order Form'' = Some ''P7''"
  "lookup_value record_p7 ''PO Date'' = Some ''2024-05-01''"
  "lookup_value record_p7 ''Brand Name'' = Some ''X''"
  by code_simp+

lemma lookup_record_p8:
  "lookup_value record_p8 ''Order Form'' = Some ''P8''"
  "lookup_value record_p8 ''PO Date'' = Some ''2024-05-01''"
  "lookup_value record_p8 ''Brand Name'' = Some ''X''"
  by code_simp+

text \<open>
  C5. Two records with the same order form, PO date and brand should leave one row, the
  first. The code derives the duplicate key from the projected row, and the projection
  fills the column Order Form from the first field of the record whose name the matcher
  resolves to it. For a record that holds Production Order Form before Order Form that
  is the production order form: its words include those of the column, and the alias
  table does not know it. The records \<open>record_p7\<close> (the one \<open>sheet_production\<close>
  yields) and \<open>record_p8\<close> agree on the three fields and differ in the production order
  form; their keys differ, whatever the identities of the row objects, and both rows
  stay.
\<close>

theorem duplicate_key_from_wrong_field:
  "extract_data_from_sheet sheet_production = Some record_p7
   \<and> dict_get record_p7 ''Order Form'' = Some ''OF123''
   \<and> dict_get record_p8 ''Order Form'' = Some ''OF123''
   \<and> dict_get record_p7 ''PO Date'' = dict_get record_p8 ''PO Date''
   \<and> dict_get record_p7 ''Brand Name'' = dict_get record_p8 ''Brand Name''
   \<and> row_get (project_record record_p7) ''Order Form'' = Some ''P7''
   \<and> row_get (project_record record_p8) ''Order Form'' = Some ''P8''
   \<and> create_key i (project_record record_p7) = ''P7|2024-05-01|X''
   \<and> create_key j (project_record record_p8) = ''P8|2024-05-01|X''
   \<and> map fst (df_dedup [i, j] [record_p7, record_p8]) = [0, 1]"
proof -
  have e: "extract_data_from_sheet sheet_production = Some record_p7" by code_simp
  have d: "dict_get record_p7 ''Order Form'' = Some ''OF123''"
    "dict_get record_p8 ''Order Form'' = Some ''OF123''"
    "dict_get record_p7 ''PO Date'' = dict_get record_p8 ''PO Date''"
    "dict_get record_p7 ''Brand Name'' = dict_get record_p8 ''Brand Name''"
    by (simp_all add: dict_get_def record_p7_def record_p8_def)
  have r: "row_get (project_record record_p7) ''Order Form'' = Some ''P7''"
    "row_get (project_record record_p8) ''Order Form'' = Some ''P8''"
    by (simp_all add: row_get_project key_columns lookup_record_p7 lookup_record_p8)
  have k7: "create_key i (project_record record_p7) = ''P7|2024-05-01|X''"
    by (simp add: create_key_def key_parts_def List.map_filter_def row_get_project key_columns
          lookup_record_p7)
  have k8: "create_key j (project_record record_p8) = ''P8|2024-05-01|X''"
    by (simp add: create_key_def key_parts_def List.map_filter_def row_get_project key_columns
          lookup_record_p8)
  have two: "[0 ..< length [a, b]] = [0, 1]" for a b :: row
    by (simp add: upt_rec)
  have f: "map fst (df_dedup [i, j] [record_p7, record_p8]) = [0, 1]"
    by (simp add: df_dedup_def df_final_def dedup_frame_def duplicate_keys_def two k7 k8)
  from e d r k7 k8 f show ?thesis by (intro conjI)
qed

text \<open>
  What the deduplication does on the rows of the combined table: two rows whose cells
  under Order Form, PO Date and Brand Name agree, at least one of them holding a value,
  have the same key whatever the identities of their row objects and whatever their
  other cells; the later of the two is not in the deduplicated frame; of all rows with
  that key exactly one is, the first one in input order.
\<close>

lemma duplicate_rows_collapse:
  assumes len: "length row_ids = length rows"
    and ij: "i < j" "j < length rows"
    and same: "row_get (rows ! i) ''Order Form'' = row_get (rows ! j) ''Order Form''"
              "row_get (rows ! i) ''PO Date'' = row_get (rows ! j) ''PO Date''"
              "row_get (rows ! i) ''Brand Name'' = row_get (rows ! j) ''Brand Name''"
    and some: "row_get (rows ! i) ''Order Form'' \<noteq> None \<or> row_get (rows ! i) ''PO Date'' \<noteq> None
               \<or> row_get (rows ! i) ''Brand Name'' \<noteq> None"
  shows "create_key (row_ids ! i) (rows ! i) = create_key (row_ids ! j) (rows ! j)
         \<and> (j, rows ! j) \<notin> set (dedup_frame row_ids rows)
         \<and> (\<exists>k \<le> i. (k, rows ! k) \<in> set (dedup_frame row_ids rows)
                \<and> create_key (row_ids ! k) (rows ! k) = create_key (row_ids ! i) (rows ! i)
                \<and> (\<forall>m r. (m, r) \<in> set (dedup_frame row_ids rows)
                       \<and> create_key (row_ids ! m) r = create_key (row_ids ! i) (rows ! i) \<longrightarrow> m = k))
         \<and> ((\<forall>m < i. create_key (row_ids ! m) (rows ! m) \<noteq> create_key (row_ids ! i) (rows ! i))
                \<longrightarrow> (i, rows ! i) \<in> set (dedup_frame row_ids rows))"
proof -
  let ?key = "\<lambda>m. create_key (row_ids ! m) (rows ! m)"
  have parts: "key_parts (rows ! i) = key_parts (rows ! j)"
    using same by (simp add: key_parts_def List.map_filter_def)
  have ne: "key_parts (rows ! i) \<noteq> []"
    using some by (auto simp: key_parts_def List.map_filter_def)
  have keq: "?key i = ?key j"
    using parts ne by (rule create_key_parts)
  have notj: "(j, rows ! j) \<notin> set (dedup_frame row_ids rows)"
    unfolding dedup_frame_mem[OF len] using ij keq by auto
  define k where "k = (LEAST m. ?key m = ?key i)"
  have kk: "?key k = ?key i" unfolding k_def by (rule LeastI) simp
  have kle: "k \<le> i" unfolding k_def by (rule Least_le) simp
  have kmin: "?key m \<noteq> ?key i" if "m < k" for m
    using that not_less_Least unfolding k_def by blast
  have kin: "(k, rows ! k) \<in> set (dedup_frame row_ids rows)"
    unfolding dedup_frame_mem[OF len] using kle ij kk kmin by auto
  have uniq: "m = k" if "(m, r) \<in> set (dedup_frame row_ids rows)"
      "create_key (row_ids ! m) r = ?key i" for m r
  proof -
    from that(1) have m: "m < length rows" "r = rows ! m" "\<forall>m' < m. ?key m' \<noteq> ?key m"
      unfolding dedup_frame_mem[OF len] by auto
    from that(2) m have mk: "?key m = ?key i" by simp
    have "\<not> m < k" using kmin mk by blast
    moreover have "\<not> k < m" using m(3) kk mk by auto
    ultimately show ?thesis by simp
  qed
  have first: "(i, rows ! i) \<in> set (dedup_frame row_ids rows)"
    if "\<forall>m < i. ?key m \<noteq> ?key i"
    unfolding dedup_frame_mem[OF len] using that ij by auto
  from keq notj kle kin kk uniq first show ?thesis by blast
qed

lemma project_record_cells:
  "cell \<in> set (project_record rcd) \<Longrightarrow> cell = None \<or> (\<exists>item \<in> set rcd. cell = Some (snd item))"
proof -
  assume "cell \<in> set (project_record rcd)"
  then obtain col where c: "cell = lookup_value rcd col" by (auto simp: project_record_def)
  show ?thesis
  proof (cases "find (\<lambda>item. match_column_name (fst item) [col] = Some col) rcd")
    case None
    with c show ?thesis by (simp add: lookup_value_def)
  next
    case (Some item)
    then have "item \<in> set rcd" by (auto simp: find_Some_iff)
    moreover from c Some have "cell = Some (snd item)" by (simp add: lookup_value_def)
    ultimately show ?thesis by blast
  qed
qed

text \<open>
  C1, as amended. A year's written table has exactly 86 columns, whose names and order
  are those of \<open>REQUIRED_COLUMNS\<close> (86 distinct names), whatever fields the records
  populate: every data row is the projection of an extracted record and has 86 cells,
  each of them empty or a value of that record, and the cell of a record is empty
  (\<open>None\<close>) under every column to which none of the record's field names is resolved.
  The order of the rows is the library's; the statement holds for every reordering that
  returns rows of the frame it is given.
\<close>

theorem output_columns:
  assumes "\<And>frame. set (sort_values frame) \<subseteq> set frame"
  shows "length REQUIRED_COLUMNS = 86 \<and> distinct REQUIRED_COLUMNS
     \<and> (\<forall>tbl. written_table sort_values row_ids all_records = Some tbl \<longrightarrow>
           header tbl = REQUIRED_COLUMNS
           \<and> (\<forall>r \<in> set (body tbl). length r = 86
                 \<and> (\<exists>rcd \<in> set all_records. r = project_record rcd)))
     \<and> (\<forall>rcd. \<forall>cell \<in> set (project_record rcd).
           cell = None \<or> (\<exists>item \<in> set rcd. cell = Some (snd item)))
     \<and> (\<forall>rcd col. col \<in> set REQUIRED_COLUMNS
           \<and> (\<forall>item \<in> set rcd. match_column_name (fst item) [col] \<noteq> Some col)
           \<longrightarrow> row_get (project_record rcd) col = None)"
proof -
  have rows: "length r = 86 \<and> (\<exists>rcd \<in> set all_records. r = project_record rcd)"
    if "r \<in> set (map snd (sort_values (df_dedup row_ids all_records)))" for r
  proof -
    from that obtain m where "(m, r) \<in> set (sort_values (df_dedup row_ids all_records))" by auto
    with assms have "(m, r) \<in> set (df_dedup row_ids all_records)" by blast
    then have "r \<in> set (df_final all_records)"
      unfolding df_dedup_def by (rule dedup_frame_rows)
    then obtain rcd where "rcd \<in> set all_records" "r = project_record rcd"
      by (auto simp: df_final_def)
    then show ?thesis
      by (auto simp: length_project_record length_REQUIRED_COLUMNS)
  qed
  have tbl: "\<forall>tbl. written_table sort_values row_ids all_records = Some tbl \<longrightarrow>
           header tbl = REQUIRED_COLUMNS
           \<and> (\<forall>r \<in> set (body tbl). length r = 86
                 \<and> (\<exists>rcd \<in> set all_records. r = project_record rcd))"
    using rows by (auto simp: written_table_def split: if_splits)
  have cells: "\<forall>rcd. \<forall>cell \<in> set (project_record rcd).
           cell = None \<or> (\<exists>item \<in> set rcd. cell = Some (snd item))"
    using project_record_cells by blast
  have empty: "\<forall>rcd col. col \<in> set REQUIRED_COLUMNS
           \<and> (\<forall>item \<in> set rcd. match_column_name (fst item) [col] \<noteq> Some col)
           \<longrightarrow> row_get (project_record rcd) col = None"
    by (simp add: row_get_project lookup_value_None)
  from length_REQUIRED_COLUMNS distinct_REQUIRED_COLUMNS tbl cells empty
  show ?thesis by (intro conjI)
qed

theorem output_columns_witness:
  "written_table rev [''1''] [record_first]
     = Some \<lparr>header = REQUIRED_COLUMNS, body = [project_record record_first]\<rparr>
   \<and> length (project_record record_first) = 86
   \<and> ''Folder'' \<in> set REQUIRED_COLUMNS
   \<and> row_get (project_record record_first) ''Folder'' = None"
proof -
  have sub: "\<And>frame :: (nat \<times> row) list. set (rev frame) \<subseteq> set frame" by simp
  note inst = output_columns[of rev "[''1'']" "[record_first]", OF sub]
  have w: "written_table rev [''1''] [record_first]
     = Some \<lparr>header = REQUIRED_COLUMNS, body = [project_record record_first]\<rparr>"
    by (simp add: written_table_def df_dedup_def df_final_def dedup_frame_def duplicate_keys_def)
  from inst w have "\<forall>r \<in> set (body \<lparr>header = REQUIRED_COLUMNS, body = [project_record record_first]\<rparr>).
      length r = 86 \<and> (\<exists>rcd \<in> set [record_first]. r = project_record rcd)"
    by blast
  then have l: "length (project_record record_first) = 86" by simp
  have c0: "''Folder'' \<in> set REQUIRED_COLUMNS" by (simp add: REQUIRED_COLUMNS_def)
  have nomatch: "\<forall>item \<in> set record_first. match_column_name (fst item) [''Folder''] \<noteq> Some ''Folder''"
    by code_simp
  from inst c0 nomatch have e: "row_get (project_record record_first) ''Folder'' = None"
    by blast
  from w l c0 e show ?thesis by (intro conjI)
qed

text \<open>
  The claim as worded fails on the count: the column list of the source has 86 names, not
  85, and so has the header of every table written.
\<close>

theorem output_columns_counterexample:
  "written_table rev [''1''] [record_first]
     = Some \<lparr>header = REQUIRED_COLUMNS, body = [project_record record_first]\<rparr>
   \<and> length REQUIRED_COLUMNS = 86
   \<and> length REQUIRED_COLUMNS \<noteq> 85"
  by (simp add: written_table_def df_dedup_def df_final_def dedup_frame_def duplicate_keys_def
        length_REQUIRED_COLUMNS)

lemma lookup_record_ref:
  "lookup_value record_ref1 ''Order Form'' = None" "lookup_value record_ref1 ''PO Date'' = None"
  "lookup_value record_ref1 ''Brand Name'' = None"
  "lookup_value record_ref2 ''Order Form'' = None" "lookup_value record_ref2 ''PO Date'' = None"
  "lookup_value record_ref2 ''Brand Name'' = None"
  by code_simp+

lemma lookup_record_brand_date:
  "lookup_value record_brand ''Order Form'' = Some ''A''" "lookup_value record_brand ''PO Date'' = None"
  "lookup_value record_brand ''Brand Name'' = Some ''B''"
  "lookup_value record_date ''Order Form'' = Some ''A''" "lookup_value record_date ''PO Date'' = Some ''B''"
  "lookup_value record_date ''Brand Name'' = None"
  by code_simp+

text \<open>
  C10. The key of a row is the join with \<^verbatim>\<open>|\<close> of those of its three key fields that
  hold a value, so the records \<open>record_brand\<close> (order form A, brand B) and \<open>record_date\<close>
  (order form A, PO date B) both get the key \<^verbatim>\<open>A|B\<close>, and of two such rows only the
  first stays. A row with none of the three gets \<^verbatim>\<open>ROW_\<close> followed by the identity
  of its row object. That key is unique per row only if the identities are: with the
  identities equal, as for one object handed to \<open>create_key\<close> row after row, the second
  of two such rows is removed as a duplicate; with the identities different it stays.
\<close>

theorem row_identity_keys:
  "create_key ''140'' (project_record record_brand) = ''A|B''
   \<and> create_key ''141'' (project_record record_date) = ''A|B''
   \<and> map fst (df_dedup [''140'', ''141''] [record_brand, record_date]) = [0]
   \<and> create_key ''140'' (project_record record_ref1) = ''ROW_140''
   \<and> create_key ''140'' (project_record record_ref2) = ''ROW_140''
   \<and> map fst (df_dedup [''140'', ''140''] [record_ref1, record_ref2]) = [0]
   \<and> map fst (df_dedup [''140'', ''141''] [record_ref1, record_ref2]) = [0, 1]"
proof -
  have k1: "create_key i (project_record record_brand) = ''A|B''" for i
    by (simp add: create_key_def key_parts_def List.map_filter_def row_get_project key_columns
          lookup_record_brand_date)
  have k2: "create_key i (project_record record_date) = ''A|B''" for i
    by (simp add: create_key_def key_parts_def List.map_filter_def row_get_project key_columns
          lookup_record_brand_date)
  have k3: "create_key i (project_record record_ref1) = ''ROW_'' @ i" for i
    by (simp add: create_key_def key_parts_def List.map_filter_def row_get_project key_columns
          lookup_record_ref)
  have k4: "create_key i (project_record record_ref2) = ''ROW_'' @ i" for i
    by (simp add: create_key_def key_parts_def List.map_filter_def row_get_project key_columns
          lookup_record_ref)
  have two: "[0 ..< length [a, b]] = [0, 1]" for a b :: row
    by (simp add: upt_rec)
  show ?thesis
    by (simp add: df_dedup_def df_final_def dedup_frame_def duplicate_keys_def two k1 k2 k3 k4)
qed

subsection \<open>The processed-file ledger\<close>

lemma lines_acc_line:
  "\<not> list_ex is_newline n \<Longrightarrow> lines_acc cur (n @ [CHR 0x0A]) = [cur @ n]"
  by (induction n arbitrary: cur) (auto simp: is_newline_def)

lemma lines_acc_append:
  "xs \<noteq> [] \<Longrightarrow> is_newline (last xs) \<Longrightarrow>
   lines_acc cur (xs @ ys) = lines_acc cur xs @ lines_acc [] ys"
proof (induction xs arbitrary: cur)
  case Nil
  then show ?case by simp
next
  case (Cons c cs)
  show ?case
  proof (cases "cs = []")
    case True
    with Cons.prems show ?thesis by simp
  next
    case False
    with Cons.prems have "is_newline (last cs)" by simp
    with False Cons.IH show ?thesis by simp
  qed
qed

lemma file_lines_append_line:
  assumes "content = [] \<or> is_newline (last content)" "\<not> list_ex is_newline n"
  shows "file_lines (content @ n @ [CHR 0x0A]) = file_lines content @ [n]"
proof (cases "content = []")
  case True
  with assms(2) show ?thesis
    using lines_acc_line[of n "[]"] by (simp add: file_lines_def)
next
  case False
  with assms(1) have "is_newline (last content)" by simp
  with False have "lines_acc [] (content @ (n @ [CHR 0x0A]))
        = lines_acc [] content @ lines_acc [] (n @ [CHR 0x0A])"
    by (rule lines_acc_append)
  with assms(2) show ?thesis
    using lines_acc_line[of n "[]"] by (simp add: file_lines_def)
qed

text \<open>
  C9, as amended. Ledger round trip: for every year, every tracking directory that
  \<^verbatim>\<open>os.makedirs\<close> accepts, every ledger file that can be appended to and read and is
  absent or holds an ASCII text that is empty or ends with a line terminator (as every
  text written by \<open>mark_file_as_processed\<close> does), and every file name of ASCII
  characters that UTF-8 can encode, that is not blank, has no white space at either end
  and holds no line terminator, marking the file returns and loading the year then
  yields a set that contains the file name; the names loaded before are still there,
  and the ledger can be extended again.
\<close>

theorem ledger_round_trip:
  assumes dir: "makedirs_ok fs (tracking_dir_of tracking_dir)"
    and ok: "ledger_ok fs (tracking_file (tracking_dir_of tracking_dir) year_name)"
    and name: "plain_name file_name"
    and enc: "encodable fs (file_name @ [CHR 0x0A])"
  shows "\<exists>fs' loaded.
           mark_file_as_processed fs file_name year_name tracking_dir = Inr fs'
           \<and> mark_then_load fs file_name year_name tracking_dir = Inr loaded
           \<and> loaded = get_processed_files_from_tracking fs' year_name tracking_dir
           \<and> file_name \<in> loaded
           \<and> get_processed_files_from_tracking fs year_name tracking_dir \<subseteq> loaded
           \<and> ledger_ok fs' (tracking_file (tracking_dir_of tracking_dir) year_name)"
proof -
  let ?p = "tracking_file (tracking_dir_of tracking_dir) year_name"
  from name have n: "file_name \<noteq> []" "strip file_name = file_name"
    "\<not> list_ex is_newline file_name" "is_ascii file_name"
    by (simp_all add: plain_name_def)
  from ok have io: "appendable fs ?p" "readable fs ?p" by (simp_all add: ledger_ok_def)
  define old where "old = (case files fs ?p of Missing \<Rightarrow> [] | File content \<Rightarrow> content)"
  define fs' where "fs' = fs\<lparr>files := (files fs)(?p := File (old @ file_name @ [CHR 0x0A]))\<rparr>"
  have m: "mark_file_as_processed fs file_name year_name tracking_dir = Inr fs'"
    using dir io enc by (simp add: mark_file_as_processed_def Let_def fs'_def old_def)
  have oldok: "old = [] \<or> is_newline (last old)" and oldascii: "is_ascii old"
    using ok by (auto simp: ledger_ok_def old_def is_ascii_def split: file_state.splits)
  have ln: "file_lines (old @ file_name @ [CHR 0x0A]) = file_lines old @ [file_name]"
    using oldok n(3) by (rule file_lines_append_line)
  have g': "get_processed_files_from_tracking fs' year_name tracking_dir
            = set (filter (\<lambda>l. l \<noteq> []) (map strip (file_lines old))) \<union> {file_name}"
    using io n by (simp add: get_processed_files_from_tracking_def Let_def fs'_def ln)
  have g: "get_processed_files_from_tracking fs year_name tracking_dir
           \<subseteq> set (filter (\<lambda>l. l \<noteq> []) (map strip (file_lines old)))"
    by (auto simp: get_processed_files_from_tracking_def Let_def old_def split: file_state.splits)
  have l: "ledger_ok fs' ?p"
    using io oldascii n(4) by (simp add: ledger_ok_def fs'_def is_newline_def is_ascii_def)
  from m g' g l show ?thesis
    by (auto simp: mark_then_load_def)
qed

theorem ledger_round_trip_witness:
  "plain_name ''f.xlsx''
   \<and> mark_then_load fresh_fs ''f.xlsx'' ''2024-25'' None = Inr {''f.xlsx''}
   \<and> ''f.xlsx'' \<in> {''f.xlsx''}"
proof -
  have dir: "makedirs_ok fresh_fs (tracking_dir_of None)" by (simp add: fresh_fs_def)
  have ok: "ledger_ok fresh_fs (tracking_file (tracking_dir_of None) ''2024-25'')"
    by (simp add: ledger_ok_def fresh_fs_def)
  have name: "plain_name ''f.xlsx''"
    by (simp add: plain_name_def strip_def lstrip_def rstrip_def isspace_def is_newline_def
          is_ascii_def)
  have enc: "encodable fresh_fs (''f.xlsx'' @ [CHR 0x0A])" by (simp add: fresh_fs_def)
  from ledger_round_trip[OF dir ok name enc]
  obtain loaded where l: "mark_then_load fresh_fs ''f.xlsx'' ''2024-25'' None = Inr loaded"
    "''f.xlsx'' \<in> loaded" by blast
  have e: "mark_then_load fresh_fs ''f.xlsx'' ''2024-25'' None = Inr {''f.xlsx''}"
    by (simp add: mark_then_load_def mark_file_as_processed_def
          get_processed_files_from_tracking_def fresh_fs_def Let_def file_lines_def
          is_newline_def strip_def lstrip_def rstrip_def isspace_def)
  from name e l show ?thesis by simp
qed

text \<open>
  The claim as worded, for every file name, fails on the empty name, whose line the
  reader skips as blank, and on a name with a leading space: the reader strips every
  line, so the set holds the name without the space. It fails also where the ledger
  cannot be appended to, since the write is given up silently.
\<close>

theorem ledger_round_trip_counterexample:
  "mark_then_load fresh_fs [] ''2024-25'' None = Inr {}
   \<and> mark_then_load fresh_fs '' f.xlsx'' ''2024-25'' None = Inr {''f.xlsx''}
   \<and> '' f.xlsx'' \<notin> {''f.xlsx''}
   \<and> mark_then_load (fresh_fs\<lparr>appendable := (\<lambda>p. False)\<rparr>) ''f.xlsx'' ''2024-25'' None = Inr {}"
  by (simp add: mark_then_load_def mark_file_as_processed_def
        get_processed_files_from_tracking_def fresh_fs_def Let_def file_lines_def
        is_newline_def strip_def lstrip_def rstrip_def isspace_def)

end
